theory Spec2Isabelle
  imports Main "HOL-Library.Product_Lexorder" "HOL-Library.Option_ord"
begin

chapter \<open>Monaco 2018 Q1 report: the data-processing core of reporting\_gen.py\<close>

text \<open>
  The theory embeds \<^verbatim>\<open>src/reporting_gen.py\<close> (classes \<^verbatim>\<open>DriverLapInfo\<close>,
  \<^verbatim>\<open>Q1Processor\<close>, \<^verbatim>\<open>Q1ReportGenerator\<close>) and the \<^verbatim>\<open>report\<close> route of
  \<^verbatim>\<open>src/app.py\<close>.

  Conventions.
  \<^item> A Python \<^verbatim>\<open>str\<close> is a \<open>string\<close>; a \<open>char\<close> stands for a code point below 256.
  \<^item> An exception that leaves a function is the \<open>Inl\<close> of a result \<open>error + 'a\<close>.
    \<^verbatim>\<open>IOError\<close> is caught where it arises, so it is no value of \<open>error\<close>.
  \<^item> A Python \<^verbatim>\<open>dict\<close> keeps insertion order and is an association list with
    \<open>dict_set\<close>; \<^verbatim>\<open>d.get(k)\<close> and \<^verbatim>\<open>k in d\<close> are \<open>map_of\<close>.
  \<^item> \<^verbatim>\<open>print\<close> output is not modelled.
\<close>

section \<open>The program\<close>

subsection \<open>Exceptions, files, dictionaries\<close>

datatype error = ValueError | AttributeError

text \<open>What \<^verbatim>\<open>open(path, 'r')\<close> and the iteration over the file deliver: an
  \<^verbatim>\<open>IOError\<close> (file missing or unreadable), or the lines of the file. The decoding
  of the bytes and an error in the middle of the iteration are not modelled.\<close>

datatype file_data = Unreadable | Readable "string list"

type_synonym 'v dict = "(string \<times> 'v) list"

text \<open>\<^verbatim>\<open>d[k] = v\<close>: an existing key keeps its place, a new key goes to the end.\<close>

fun dict_set :: "string \<Rightarrow> 'v \<Rightarrow> 'v dict \<Rightarrow> 'v dict" where
  "dict_set k v [] = [(k, v)]"
| "dict_set k v ((k', v') # d) = (if k = k' then (k, v) # d else (k', v') # dict_set k v d)"

text \<open>\<^verbatim>\<open>d.values()\<close>\<close>

definition dict_values :: "'v dict \<Rightarrow> 'v list" where
  "dict_values d = map snd d"

subsection \<open>The standard library: \<^verbatim>\<open>datetime\<close> and \<^verbatim>\<open>timedelta\<close>\<close>

record datetime =
  year :: nat
  month :: nat
  day :: nat
  hour :: nat
  minute :: nat
  second :: nat
  microsecond :: nat

text \<open>A \<^verbatim>\<open>timedelta\<close> is its total number of microseconds: Python keeps it normalised
  as days, seconds (\<open>0 \<le> s < 86400\<close>) and microseconds (\<open>0 \<le> us < 10\<^sup>6\<close>), and
  comparison, equality and truth value are those of the total.\<close>

type_synonym timedelta = int

definition is_leap :: "nat \<Rightarrow> bool" where
  "is_leap y = (y mod 4 = 0 \<and> (y mod 100 \<noteq> 0 \<or> y mod 400 = 0))"

definition days_in_month :: "nat \<Rightarrow> nat \<Rightarrow> nat" where
  "days_in_month y m =
     (if m = 2 \<and> is_leap y then 29
      else [0, 31, 28, 31, 30, 31, 30, 31, 31, 30, 31, 30, 31] ! m)"

definition days_before_year :: "nat \<Rightarrow> int" where
  "days_before_year y =
     (let y1 = int y - 1 in y1 * 365 + y1 div 4 - y1 div 100 + y1 div 400)"

definition days_before_month :: "nat \<Rightarrow> nat \<Rightarrow> int" where
  "days_before_month y m =
     int ([0, 0, 31, 59, 90, 120, 151, 181, 212, 243, 273, 304, 334] ! m)
       + (if m > 2 \<and> is_leap y then 1 else 0)"

text \<open>\<^verbatim>\<open>datetime.toordinal()\<close>\<close>

definition toordinal :: "datetime \<Rightarrow> int" where
  "toordinal d = days_before_year (year d) + days_before_month (year d) (month d) + int (day d)"

text \<open>\<^verbatim>\<open>a < b\<close> on two naive datetimes compares the field tuples lexicographically.\<close>

definition dt_less :: "datetime \<Rightarrow> datetime \<Rightarrow> bool" where
  "dt_less a b =
     ((year a, month a, day a, hour a, minute a, second a, microsecond a)
        < (year b, month b, day b, hour b, minute b, second b, microsecond b))"

text \<open>\<^verbatim>\<open>a - b\<close> on two naive datetimes:
  \<^verbatim>\<open>timedelta(days1 - days2, secs1 - secs2, us1 - us2)\<close>.\<close>

definition dt_sub :: "datetime \<Rightarrow> datetime \<Rightarrow> timedelta" where
  "dt_sub a b =
     (let days1 = toordinal a; days2 = toordinal b;
          secs1 = int (second a) + int (minute a) * 60 + int (hour a) * 3600;
          secs2 = int (second b) + int (minute b) * 60 + int (hour b) * 3600
      in ((days1 - days2) * 86400 + (secs1 - secs2)) * 1000000
           + (int (microsecond a) - int (microsecond b)))"

text \<open>Decimal output: \<^verbatim>\<open>"%d" % n\<close>, and \<^verbatim>\<open>"%02d" % n\<close>, \<^verbatim>\<open>"%06d" % n\<close> for
  \<open>n \<ge> 0\<close>.\<close>

definition digit_char :: "nat \<Rightarrow> char" where
  "digit_char n = ''0123456789'' ! (n mod 10)"

fun show_nat :: "nat \<Rightarrow> string" where
  "show_nat n = (if n < 10 then [digit_char n] else show_nat (n div 10) @ [digit_char n])"

declare show_nat.simps [simp del]

definition show_int :: "int \<Rightarrow> string" where
  "show_int i = (if i < 0 then CHR ''-'' # show_nat (nat (- i)) else show_nat (nat i))"

definition zero_pad :: "nat \<Rightarrow> int \<Rightarrow> string" where
  "zero_pad w i = (let s = show_int i in replicate (w - length s) CHR ''0'' @ s)"

text \<open>\<^verbatim>\<open>str(td)\<close>: \<^verbatim>\<open>H:MM:SS\<close>, preceded by the days when there are any, followed by
  the six-digit microseconds when there are any.\<close>

definition str_timedelta :: "timedelta \<Rightarrow> string" where
  "str_timedelta td =
     (let days = td div 86400000000;
          seconds = (td mod 86400000000) div 1000000;
          microseconds = td mod 1000000;
          mm = seconds div 60; ss = seconds mod 60;
          hh = mm div 60; mm = mm mod 60;
          s = show_int hh @ '':'' @ zero_pad 2 mm @ '':'' @ zero_pad 2 ss;
          s = (if days \<noteq> 0
               then show_int days @ '' day'' @ (if \<bar>days\<bar> \<noteq> 1 then ''s'' else '''') @ '', '' @ s
               else s)
      in if microseconds \<noteq> 0 then s @ ''.'' @ zero_pad 6 microseconds else s)"

subsection \<open>The standard library: strings, the regular expression, \<^verbatim>\<open>strptime\<close>\<close>

text \<open>\<^verbatim>\<open>str.isspace\<close> on the code points below 256.\<close>

definition is_space :: "char \<Rightarrow> bool" where
  "is_space c = ((of_char c :: nat) \<in> set [9, 10, 11, 12, 13, 28, 29, 30, 31, 32, 133, 160])"

text \<open>\<^verbatim>\<open>s.strip()\<close>\<close>

definition strip :: "string \<Rightarrow> string" where
  "strip s = rev (dropWhile is_space (rev (dropWhile is_space s)))"

text \<open>\<^verbatim>\<open>s.split(sep)\<close> for a one-character separator: one more field than there are
  separators.\<close>

fun split_on :: "char \<Rightarrow> string \<Rightarrow> string list" where
  "split_on sep [] = [[]]"
| "split_on sep (c # cs) =
     (if c = sep then [] # split_on sep cs
      else (case split_on sep cs of f # fs \<Rightarrow> (c # f) # fs | [] \<Rightarrow> [[c]]))"

text \<open>The pattern of \<^verbatim>\<open>read_log_file\<close>,
  \<^verbatim>\<open>([A-Z]{3})(\d{4}-\d{2}-\d{2}_\d{2}:\d{2}:\d{2}\.\d{3})\<close>, is a sequence of
  character classes of fixed length; \<^verbatim>\<open>re.match\<close> anchors it at the start of the
  string and accepts any rest.\<close>

datatype cls = Upper | Digit | Lit char

fun cls_ok :: "cls \<Rightarrow> char \<Rightarrow> bool" where
  "cls_ok Upper c = (c \<in> set ''ABCDEFGHIJKLMNOPQRSTUVWXYZ'')"
| "cls_ok Digit c = (c \<in> set ''0123456789'')"
| "cls_ok (Lit l) c = (c = l)"

definition log_pattern :: "cls list" where
  "log_pattern =
     replicate 3 Upper
     @ replicate 4 Digit @ [Lit CHR ''-''] @ replicate 2 Digit @ [Lit CHR ''-'']
     @ replicate 2 Digit @ [Lit CHR ''_'']
     @ replicate 2 Digit @ [Lit CHR '':''] @ replicate 2 Digit @ [Lit CHR '':'']
     @ replicate 2 Digit @ [Lit CHR ''.''] @ replicate 3 Digit"

fun match_prefix :: "cls list \<Rightarrow> string \<Rightarrow> bool" where
  "match_prefix [] s = True"
| "match_prefix (p # ps) [] = False"
| "match_prefix (p # ps) (c # cs) = (cls_ok p c \<and> match_prefix ps cs)"

text \<open>\<^verbatim>\<open>re.match(pattern, s)\<close> with \<^verbatim>\<open>match.groups()\<close>: the three-letter code and
  the 23 characters of the timestamp.\<close>

definition re_match :: "string \<Rightarrow> (string \<times> string) option" where
  "re_match s =
     (if match_prefix log_pattern s then Some (take 3 s, take 23 (drop 3 s)) else None)"

definition digit_val :: "char \<Rightarrow> nat" where
  "digit_val c = of_char c - 48"

definition to_nat :: "string \<Rightarrow> nat" where
  "to_nat ds = foldl (\<lambda>a c. 10 * a + digit_val c) 0 ds"

text \<open>\<^verbatim>\<open>datetime.strptime(ts, '%Y-%m-%d_%H:%M:%S.%f')\<close> on a string that the second
  group of the pattern matched: the fields are read at their fixed places, three digits
  of \<^verbatim>\<open>%f\<close> are milliseconds, and a field out of range (year 0, month 13, 30 February,
  hour 24, minute or second 60) raises \<^verbatim>\<open>ValueError\<close>.\<close>

definition strptime :: "string \<Rightarrow> error + datetime" where
  "strptime ts =
     (let y = to_nat (take 4 ts); mo = to_nat (take 2 (drop 5 ts));
          d = to_nat (take 2 (drop 8 ts)); h = to_nat (take 2 (drop 11 ts));
          mi = to_nat (take 2 (drop 14 ts)); s = to_nat (take 2 (drop 17 ts));
          us = to_nat (take 3 (drop 20 ts)) * 1000
      in if 1 \<le> y \<and> 1 \<le> mo \<and> mo \<le> 12 \<and> 1 \<le> d \<and> d \<le> days_in_month y mo
            \<and> h \<le> 23 \<and> mi \<le> 59 \<and> s \<le> 59
         then Inr \<lparr>year = y, month = mo, day = d, hour = h, minute = mi, second = s,
                   microsecond = us\<rparr>
         else Inl ValueError)"

subsection \<open>\<^verbatim>\<open>DriverLapInfo\<close>\<close>

text \<open>\<^verbatim>\<open>end_time\<close> is declared \<^verbatim>\<open>field(init=False)\<close> without a default: the
  constructor leaves the attribute unset, which is \<open>None\<close> here, and reading it then
  raises \<^verbatim>\<open>AttributeError\<close>.\<close>

record DriverLapInfo =
  driver_init :: string
  start_time :: datetime
  end_time :: "datetime option"
  driver_name :: string
  team :: string

text \<open>The property \<^verbatim>\<open>driver_lap_time\<close>: \<open>Inr None\<close> is Python's \<^verbatim>\<open>None\<close>.\<close>

definition driver_lap_time :: "DriverLapInfo \<Rightarrow> error + timedelta option" where
  "driver_lap_time self =
     (case end_time self of
        None \<Rightarrow> Inl AttributeError
      | Some e \<Rightarrow>
          if dt_less e (start_time self) then Inr None
          else Inr (Some (dt_sub e (start_time self))))"

subsection \<open>\<^verbatim>\<open>Q1Processor\<close>\<close>

text \<open>The loop of \<^verbatim>\<open>read_log_file\<close> over the lines, with the dictionary \<^verbatim>\<open>data\<close>.\<close>

fun read_lines :: "string list \<Rightarrow> datetime dict \<Rightarrow> error + datetime dict" where
  "read_lines [] data = Inr data"
| "read_lines (line # rest) data =
     (case re_match (strip line) of
        None \<Rightarrow> read_lines rest data
      | Some (init, timestamp_str) \<Rightarrow>
          (case strptime timestamp_str of
             Inl e \<Rightarrow> Inl e
           | Inr timestamp \<Rightarrow> read_lines rest (dict_set init timestamp data)))"

text \<open>\<^verbatim>\<open>except IOError\<close> reports the error and returns the empty \<^verbatim>\<open>data\<close>.\<close>

definition read_log_file :: "file_data \<Rightarrow> error + datetime dict" where
  "read_log_file f = (case f of Unreadable \<Rightarrow> Inr [] | Readable ls \<Rightarrow> read_lines ls [])"

text \<open>The loop of \<^verbatim>\<open>integrate_driver_info\<close>: unpacking the fields into three names
  raises \<^verbatim>\<open>ValueError\<close> unless there are exactly three.\<close>

fun integrate_lines :: "string list \<Rightarrow> DriverLapInfo dict \<Rightarrow> error + DriverLapInfo dict" where
  "integrate_lines [] drivers = Inr drivers"
| "integrate_lines (line # rest) drivers =
     (case split_on CHR ''_'' (strip line) of
        [init, nm, tm] \<Rightarrow>
          (case map_of drivers init of
             None \<Rightarrow> integrate_lines rest drivers
           | Some d \<Rightarrow>
               integrate_lines rest
                 (dict_set init (d\<lparr>driver_name := nm, team := tm\<rparr>) drivers))
      | _ \<Rightarrow> Inl ValueError)"

definition integrate_driver_info :: "file_data \<Rightarrow> DriverLapInfo dict \<Rightarrow> error + DriverLapInfo dict" where
  "integrate_driver_info txt drivers =
     (case txt of Unreadable \<Rightarrow> Inr drivers | Readable ls \<Rightarrow> integrate_lines ls drivers)"

text \<open>The \<^verbatim>\<open>for\<close> loop of \<^verbatim>\<open>process_files\<close> over \<^verbatim>\<open>start_times.items()\<close>.\<close>

fun build_drivers ::
  "datetime dict \<Rightarrow> datetime dict \<Rightarrow> DriverLapInfo dict \<Rightarrow> DriverLapInfo dict" where
  "build_drivers [] end_times drivers = drivers"
| "build_drivers ((init, start) # rest) end_times drivers =
     (let driver_info = \<lparr>driver_init = init, start_time = start, end_time = None,
                         driver_name = '''', team = ''''\<rparr>;
          driver_info = (case map_of end_times init of
                           Some e \<Rightarrow> driver_info\<lparr>end_time := Some e\<rparr>
                         | None \<Rightarrow> driver_info)
      in build_drivers rest end_times (dict_set init driver_info drivers))"

text \<open>\<^verbatim>\<open>process_files\<close> on a fresh processor (\<^verbatim>\<open>self.drivers = {}\<close>), given what the
  three paths deliver; the result is \<^verbatim>\<open>self.drivers\<close>.\<close>

definition process_files :: "file_data \<Rightarrow> file_data \<Rightarrow> file_data \<Rightarrow> error + DriverLapInfo dict" where
  "process_files start_log end_log txt =
     (case read_log_file start_log of
        Inl e \<Rightarrow> Inl e
      | Inr start_times \<Rightarrow>
          (case read_log_file end_log of
             Inl e \<Rightarrow> Inl e
           | Inr end_times \<Rightarrow> integrate_driver_info txt (build_drivers start_times end_times [])))"

subsection \<open>\<^verbatim>\<open>list.sort\<close>\<close>

text \<open>\<^verbatim>\<open>xs.sort(key=key, reverse=reverse)\<close>: the key of every element is computed
  first, in list order, and an exception raised there leaves the sort; the elements are
  then sorted by their keys, stably; with \<^verbatim>\<open>reverse\<close> the list is reversed before
  and after the sort, so that elements with equal keys still keep their order. The
  stable sort is \<open>sort_key\<close>, sorting by insertion: on a linear order of the keys every
  stable sort returns the same list.\<close>

fun keyed :: "('a \<Rightarrow> error + 'k) \<Rightarrow> 'a list \<Rightarrow> error + ('k \<times> 'a) list" where
  "keyed key [] = Inr []"
| "keyed key (x # xs) =
     (case key x of
        Inl e \<Rightarrow> Inl e
      | Inr k \<Rightarrow> (case keyed key xs of Inl e \<Rightarrow> Inl e | Inr kxs \<Rightarrow> Inr ((k, x) # kxs)))"

definition list_sort :: "('a \<Rightarrow> error + 'k::linorder) \<Rightarrow> bool \<Rightarrow> 'a list \<Rightarrow> error + 'a list" where
  "list_sort key reverse xs =
     (case keyed key xs of
        Inl e \<Rightarrow> Inl e
      | Inr kxs \<Rightarrow>
          Inr (map snd (if reverse then rev (sort_key fst (rev kxs)) else sort_key fst kxs)))"

subsection \<open>\<^verbatim>\<open>Q1ReportGenerator\<close>\<close>

text \<open>The key of \<^verbatim>\<open>rank_drivers\<close>,
  \<^verbatim>\<open>lambda x: (x.driver_lap_time is None, x.driver_lap_time)\<close>. Python compares the
  tuples lexicographically, \<^verbatim>\<open>False < True\<close>; the second components are compared
  only when the first are equal, that is between two durations or between two
  \<^verbatim>\<open>None\<close>, which are equal.\<close>

definition rank_key :: "DriverLapInfo \<Rightarrow> error + (bool \<times> timedelta option)" where
  "rank_key x =
     (case driver_lap_time x of
        Inl e \<Rightarrow> Inl e
      | Inr t \<Rightarrow> (case driver_lap_time x of Inl e \<Rightarrow> Inl e | Inr t' \<Rightarrow> Inr (t = None, t')))"

definition rank_drivers :: "DriverLapInfo dict \<Rightarrow> string \<Rightarrow> error + DriverLapInfo list" where
  "rank_drivers drivers order = list_sort rank_key (order = ''desc'') (dict_values drivers)"

text \<open>The truth value of an \<^verbatim>\<open>Optional[timedelta]\<close> (\<^verbatim>\<open>None\<close> and
  \<^verbatim>\<open>timedelta(0)\<close> are false) and its \<^verbatim>\<open>str\<close>.\<close>

definition truthy :: "timedelta option \<Rightarrow> bool" where
  "truthy t = (case t of None \<Rightarrow> False | Some td \<Rightarrow> td \<noteq> 0)"

definition py_str :: "timedelta option \<Rightarrow> string" where
  "py_str t = (case t of None \<Rightarrow> ''None'' | Some td \<Rightarrow> str_timedelta td)"

text \<open>The expression of \<^verbatim>\<open>get_report_data\<close> and \<^verbatim>\<open>get_driver_info\<close>,
  \<^verbatim>\<open>str(driver.driver_lap_time) if driver.driver_lap_time else "NO TIME"\<close>.\<close>

definition lap_time_text :: "DriverLapInfo \<Rightarrow> error + string" where
  "lap_time_text driver =
     (case driver_lap_time driver of
        Inl e \<Rightarrow> Inl e
      | Inr c \<Rightarrow>
          if truthy c
          then (case driver_lap_time driver of Inl e \<Rightarrow> Inl e | Inr t \<Rightarrow> Inr (py_str t))
          else Inr ''NO TIME'')"

text \<open>The dictionary of \<^verbatim>\<open>get_driver_info\<close> has the keys \<^verbatim>\<open>name\<close>, \<^verbatim>\<open>team\<close>
  (here \<open>team'\<close>) and \<^verbatim>\<open>lap_time\<close>; the one of \<^verbatim>\<open>get_report_data\<close> has
  \<^verbatim>\<open>position\<close> and \<^verbatim>\<open>eliminated\<close> besides.\<close>

record driver_info =
  name :: string
  team' :: string
  lap_time :: string

record driver_data = driver_info +
  position :: int
  eliminated :: bool

text \<open>The loop of \<^verbatim>\<open>get_report_data\<close> over \<^verbatim>\<open>enumerate(ranked_drivers, start=1)\<close>;
  \<open>n\<close> is \<^verbatim>\<open>len(ranked_drivers)\<close>.\<close>

fun report_rows :: "string \<Rightarrow> int \<Rightarrow> int \<Rightarrow> DriverLapInfo list \<Rightarrow> error + driver_data list" where
  "report_rows order n i [] = Inr []"
| "report_rows order n i (driver # rest) =
     (case lap_time_text driver of
        Inl e \<Rightarrow> Inl e
      | Inr s \<Rightarrow>
          (let row = \<lparr>name = driver_name driver, team' = team driver, lap_time = s,
                      position = i,
                      eliminated = (if order = ''asc'' then i > 15 else i \<le> n - 15)\<rparr>
           in case report_rows order n (i + 1) rest of
                Inl e \<Rightarrow> Inl e
              | Inr rows \<Rightarrow> Inr (row # rows)))"

definition get_report_data :: "DriverLapInfo dict \<Rightarrow> string \<Rightarrow> error + driver_data list" where
  "get_report_data drivers order =
     (case rank_drivers drivers order of
        Inl e \<Rightarrow> Inl e
      | Inr ranked_drivers \<Rightarrow> report_rows order (int (length ranked_drivers)) 1 ranked_drivers)"

text \<open>\<^verbatim>\<open>get_driver_info\<close>: a \<^verbatim>\<open>DriverLapInfo\<close> object is always true, so
  \<^verbatim>\<open>if driver\<close> tests whether the code was found; \<open>Inr None\<close> is the returned
  \<^verbatim>\<open>None\<close>.\<close>

definition get_driver_info :: "DriverLapInfo dict \<Rightarrow> string \<Rightarrow> error + driver_info option" where
  "get_driver_info drivers init =
     (case map_of drivers init of
        None \<Rightarrow> Inr None
      | Some driver \<Rightarrow>
          (case lap_time_text driver of
             Inl e \<Rightarrow> Inl e
           | Inr s \<Rightarrow> Inr (Some \<lparr>name = driver_name driver, team' = team driver, lap_time = s\<rparr>)))"

subsection \<open>The \<^verbatim>\<open>report\<close> route of app.py\<close>

text \<open>\<^verbatim>\<open>request.args.get('order', 'asc')\<close>, then \<^verbatim>\<open>get_report_data(order)\<close>; the
  argument is the value of the query parameter, \<open>None\<close> when it is absent.\<close>

definition report :: "DriverLapInfo dict \<Rightarrow> string option \<Rightarrow> error + driver_data list" where
  "report drivers arg =
     (let order = (case arg of None \<Rightarrow> ''asc'' | Some v \<Rightarrow> v)
      in get_report_data drivers order)"

section \<open>Notions for the statements\<close>

text \<open>The duration of a record as a value: \<open>None\<close> when the end time precedes the start
  time, and also when there is no end time (where \<open>driver_lap_time\<close> raises). The sort key
  as a value.\<close>

definition duration :: "DriverLapInfo \<Rightarrow> timedelta option" where
  "duration d =
     (case end_time d of
        None \<Rightarrow> None
      | Some e \<Rightarrow> if dt_less e (start_time d) then None else Some (dt_sub e (start_time d)))"

definition pure_key :: "DriverLapInfo \<Rightarrow> bool \<times> timedelta option" where
  "pure_key d = (duration d = None, duration d)"

text \<open>The participants that advance: the records of the ranking whose row of the report,
  the row at the same position, is not eliminated.\<close>

definition advancing :: "DriverLapInfo dict \<Rightarrow> string \<Rightarrow> error + DriverLapInfo list" where
  "advancing drivers order =
     (case rank_drivers drivers order of
        Inl e \<Rightarrow> Inl e
      | Inr ranked \<Rightarrow>
          (case get_report_data drivers order of
             Inl e \<Rightarrow> Inl e
           | Inr rows \<Rightarrow> Inr (map fst (filter (\<lambda>(d, row). \<not> eliminated row) (zip ranked rows)))))"

text \<open>The code of a well-formed line, and the last line of a file that carries a given
  code.\<close>

definition line_code :: "string \<Rightarrow> string option" where
  "line_code l = map_option fst (re_match (strip l))"

definition last_line_of :: "string \<Rightarrow> string list \<Rightarrow> string option" where
  "last_line_of c ls =
     (case filter (\<lambda>l. line_code l = Some c) ls of [] \<Rightarrow> None | ms \<Rightarrow> Some (last ms))"

text \<open>The pattern of a log line in the words of the specification: a code of three
  capital letters, and a timestamp \<^verbatim>\<open>YYYY-MM-DD_HH:MM:SS.mmm\<close> of digits.\<close>

definition digits :: "nat \<Rightarrow> string \<Rightarrow> bool" where
  "digits n s = (length s = n \<and> (\<forall>c\<in>set s. c \<in> set ''0123456789''))"

definition code_shaped :: "string \<Rightarrow> bool" where
  "code_shaped c = (length c = 3 \<and> (\<forall>x\<in>set c. x \<in> set ''ABCDEFGHIJKLMNOPQRSTUVWXYZ''))"

definition timestamp_shaped :: "string \<Rightarrow> bool" where
  "timestamp_shaped t =
     (\<exists>Y M D h m s f. digits 4 Y \<and> digits 2 M \<and> digits 2 D \<and> digits 2 h \<and> digits 2 m
        \<and> digits 2 s \<and> digits 3 f
        \<and> t = Y @ ''-'' @ M @ ''-'' @ D @ ''_'' @ h @ '':'' @ m @ '':'' @ s @ ''.'' @ f)"

text \<open>Every record is stored under its own code.\<close>

definition keyed_by_init :: "DriverLapInfo dict \<Rightarrow> bool" where
  "keyed_by_init drivers = (\<forall>(init, d)\<in>set drivers. driver_init d = init)"

section \<open>Example inputs\<close>

text \<open>The lines of a file as the iteration over it delivers them, each with its newline.\<close>

definition with_newlines :: "string list \<Rightarrow> string list" where
  "with_newlines ls = map (\<lambda>l. l @ [CHR 0x0A]) ls"

text \<open>Three files for two drivers, and the two records they load to: Vettel with a lap
  of 1:04.415, Ricciardo with an end time before his start time.\<close>

definition start_log :: file_data where
  "start_log = Readable (with_newlines
     [''SVF2018-05-24_12:02:58.917'', ''DRR2018-05-24_12:14:12.054''])"

definition end_log :: file_data where
  "end_log = Readable (with_newlines
     [''SVF2018-05-24_12:04:03.332'', ''DRR2018-05-24_12:11:24.067''])"

definition abbreviations :: file_data where
  "abbreviations = Readable (with_newlines
     [''SVF_Sebastian Vettel_FERRARI'', ''DRR_Daniel Ricciardo_RED BULL RACING TAG HEUER''])"

definition vettel :: DriverLapInfo where
  "vettel =
     \<lparr>driver_init = ''SVF'',
      start_time = \<lparr>year = 2018, month = 5, day = 24, hour = 12, minute = 2, second = 58,
                     microsecond = 917000\<rparr>,
      end_time = Some \<lparr>year = 2018, month = 5, day = 24, hour = 12, minute = 4, second = 3,
                        microsecond = 332000\<rparr>,
      driver_name = ''Sebastian Vettel'', team = ''FERRARI''\<rparr>"

definition ricciardo :: DriverLapInfo where
  "ricciardo =
     \<lparr>driver_init = ''DRR'',
      start_time = \<lparr>year = 2018, month = 5, day = 24, hour = 12, minute = 14, second = 12,
                     microsecond = 54000\<rparr>,
      end_time = Some \<lparr>year = 2018, month = 5, day = 24, hour = 12, minute = 11, second = 24,
                        microsecond = 67000\<rparr>,
      driver_name = ''Daniel Ricciardo'', team = ''RED BULL RACING TAG HEUER''\<rparr>"

text \<open>A record that has a start time only, and one that ends at the instant it starts.\<close>

definition start_only :: DriverLapInfo where
  "start_only =
     \<lparr>driver_init = ''SVF'',
      start_time = \<lparr>year = 2018, month = 5, day = 24, hour = 12, minute = 2, second = 58,
                     microsecond = 917000\<rparr>,
      end_time = None, driver_name = '''', team = ''''\<rparr>"

definition zero_lap :: DriverLapInfo where
  "zero_lap =
     \<lparr>driver_init = ''SVF'',
      start_time = \<lparr>year = 2018, month = 5, day = 24, hour = 12, minute = 2, second = 58,
                     microsecond = 917000\<rparr>,
      end_time = Some \<lparr>year = 2018, month = 5, day = 24, hour = 12, minute = 2, second = 58,
                        microsecond = 917000\<rparr>,
      driver_name = ''Sebastian Vettel'', team = ''FERRARI''\<rparr>"

text \<open>The abbreviations with a line of two fields between the two lines of three.\<close>

definition noisy_abbreviations :: file_data where
  "noisy_abbreviations = Readable (with_newlines
     [''SVF_Sebastian Vettel_FERRARI'', ''NHR_Nico Hulkenberg'',
      ''DRR_Daniel Ricciardo_RED BULL RACING TAG HEUER''])"

text \<open>A start log in which \<^verbatim>\<open>SVF\<close> has two well-formed lines and \<^verbatim>\<open>XYZ\<close> a line that
  does not match the pattern.\<close>

definition noisy_log :: "string list" where
  "noisy_log = with_newlines
     [''SVF2018-05-24_12:00:00.000'', ''XYZ_not_a_timestamp'', ''DRR2018-05-24_12:14:12.054'',
      ''SVF2018-05-24_12:02:58.917'']"

text \<open>Sixteen records, one more than advance: \<open>timed c s\<close> starts at 12:00:00 and ends at
  12:01:\<open>s\<close>. In \<open>sixteen\<close> every lap is 1:30; in \<open>grid\<close> the laps are 1:30, 1:31, \<open>\<dots>\<close>,
  1:45, in the order of the mapping.\<close>

definition noon :: datetime where
  "noon = \<lparr>year = 2018, month = 5, day = 24, hour = 12, minute = 0, second = 0, microsecond = 0\<rparr>"

definition timed :: "string \<Rightarrow> nat \<Rightarrow> DriverLapInfo" where
  "timed init s =
     \<lparr>driver_init = init, start_time = noon, end_time = Some (noon\<lparr>minute := 1, second := s\<rparr>),
      driver_name = init, team = ''''\<rparr>"

definition codes16 :: "string list" where
  "codes16 = [''AAA'', ''BBB'', ''CCC'', ''DDD'', ''EEE'', ''FFF'', ''GGG'', ''HHH'',
              ''III'', ''JJJ'', ''KKK'', ''LLL'', ''MMM'', ''NNN'', ''OOO'', ''PPP'']"

definition sixteen :: "DriverLapInfo dict" where
  "sixteen = map (\<lambda>c. (c, timed c 30)) codes16"

definition grid :: "DriverLapInfo dict" where
  "grid = map (\<lambda>(c, s). (c, timed c s))
            (zip codes16 [30, 31, 32, 33, 34, 35, 36, 37, 38, 39, 40, 41, 42, 43, 44, 45])"

section \<open>Lemmas\<close>

subsection \<open>The ranking\<close>

lemma driver_lap_time_complete:
  "end_time d = Some e \<Longrightarrow> driver_lap_time d = Inr (duration d)"
  by (simp add: driver_lap_time_def duration_def)

lemma driver_lap_time_start_only:
  "end_time d = None \<Longrightarrow> driver_lap_time d = Inl AttributeError"
  by (simp add: driver_lap_time_def)

lemma rank_key_eq:
  "rank_key d = (if end_time d = None then Inl AttributeError else Inr (pure_key d))"
  by (cases "end_time d")
     (simp_all add: rank_key_def pure_key_def driver_lap_time_complete driver_lap_time_start_only)

text \<open>A key is \<open>(True, None)\<close> or \<open>(False, Some td)\<close>: no comparison of two
  keys compares \<^verbatim>\<open>None\<close> with a duration.\<close>

lemma rank_key_shape: "rank_key d = Inr (b, t) \<Longrightarrow> b = (t = None)"
  by (auto simp: rank_key_eq pure_key_def split: if_splits)

lemma keyed_all_Inr:
  "\<forall>x\<in>set xs. key x = Inr (k x) \<Longrightarrow> keyed key xs = Inr (map (\<lambda>x. (k x, x)) xs)"
  by (induction xs) simp_all

lemma keyed_rank_key_start_only:
  "\<exists>x\<in>set xs. end_time x = None \<Longrightarrow> keyed rank_key xs = Inl AttributeError"
proof (induction xs)
  case Nil
  then show ?case by simp
next
  case (Cons x xs)
  show ?case
  proof (cases "end_time x = None")
    case True
    then show ?thesis by (simp add: rank_key_eq)
  next
    case False
    with Cons.prems have "\<exists>y\<in>set xs. end_time y = None" by auto
    with Cons.IH have "keyed rank_key xs = Inl AttributeError" by simp
    moreover from False have "rank_key x = Inr (pure_key x)" by (simp add: rank_key_eq)
    ultimately show ?thesis by simp
  qed
qed

lemma insort_key_decorated:
  "insort_key fst (k x, x) (map (\<lambda>y. (k y, y)) ys) = map (\<lambda>y. (k y, y)) (insort_key k x ys)"
  by (induction ys) simp_all

lemma sort_key_decorated:
  "sort_key fst (map (\<lambda>y. (k y, y)) xs) = map (\<lambda>y. (k y, y)) (sort_key k xs)"
  by (induction xs) (simp_all add: insort_key_decorated)

lemma list_sort_all_Inr:
  assumes "\<forall>x\<in>set xs. key x = Inr (k x)"
  shows "list_sort key reverse xs
           = Inr (if reverse then rev (sort_key k (rev xs)) else sort_key k xs)"
proof -
  let ?dec = "\<lambda>x. (k x, x)"
  have keys: "keyed key xs = Inr (map ?dec xs)"
    using assms by (rule keyed_all_Inr)
  have undecorate: "map snd (sort_key fst (map ?dec ys)) = sort_key k ys" for ys
    by (simp add: sort_key_decorated comp_def)
  show ?thesis
  proof (cases reverse)
    case False
    with keys undecorate show ?thesis by (simp add: list_sort_def)
  next
    case True
    have "map snd (rev (sort_key fst (rev (map ?dec xs))))
            = rev (map snd (sort_key fst (map ?dec (rev xs))))"
      by (simp only: rev_map)
    also have "\<dots> = rev (sort_key k (rev xs))"
      by (simp only: undecorate)
    finally show ?thesis using True keys by (simp add: list_sort_def)
  qed
qed

lemma rank_drivers_complete:
  assumes "\<forall>d\<in>set (dict_values drivers). end_time d \<noteq> None"
  shows "rank_drivers drivers order
           = Inr (if order = ''desc''
                  then rev (sort_key pure_key (rev (dict_values drivers)))
                  else sort_key pure_key (dict_values drivers))"
proof -
  have "\<forall>d\<in>set (dict_values drivers). rank_key d = Inr (pure_key d)"
    using assms by (simp add: rank_key_eq)
  then show ?thesis
    unfolding rank_drivers_def by (rule list_sort_all_Inr)
qed

lemma rank_drivers_start_only:
  assumes "\<exists>d\<in>set (dict_values drivers). end_time d = None"
  shows "rank_drivers drivers order = Inl AttributeError"
  using keyed_rank_key_start_only [OF assms] by (simp add: rank_drivers_def list_sort_def)

lemma set_rank_drivers:
  assumes "rank_drivers drivers order = Inr ranked"
  shows "set ranked = set (dict_values drivers)" and "length ranked = length (dict_values drivers)"
    and "\<forall>d\<in>set (dict_values drivers). end_time d \<noteq> None"
proof -
  show c: "\<forall>d\<in>set (dict_values drivers). end_time d \<noteq> None"
  proof (rule ccontr)
    assume "\<not> (\<forall>d\<in>set (dict_values drivers). end_time d \<noteq> None)"
    then have "\<exists>d\<in>set (dict_values drivers). end_time d = None" by simp
    then have "rank_drivers drivers order = Inl AttributeError"
      by (rule rank_drivers_start_only)
    with assms show False by simp
  qed
  from rank_drivers_complete [OF c, of order] assms
  show "set ranked = set (dict_values drivers)" "length ranked = length (dict_values drivers)"
    by (auto split: if_splits)
qed

subsection \<open>The rows of the report\<close>

lemma lap_time_text_complete:
  "end_time d \<noteq> None \<Longrightarrow>
     lap_time_text d = Inr (if truthy (duration d) then py_str (duration d) else ''NO TIME'')"
  by (auto simp: lap_time_text_def driver_lap_time_complete)

lemma lap_time_text_start_only:
  "end_time d = None \<Longrightarrow> lap_time_text d = Inl AttributeError"
  by (simp add: lap_time_text_def driver_lap_time_start_only)

lemma report_rows_complete:
  "\<forall>d\<in>set xs. end_time d \<noteq> None \<Longrightarrow> \<exists>rows. report_rows order n i xs = Inr rows"
proof (induction xs arbitrary: i)
  case Nil
  show ?case by simp
next
  case (Cons x xs)
  then obtain rows where "report_rows order n (i + 1) xs = Inr rows" by auto
  moreover from Cons.prems obtain s where "lap_time_text x = Inr s"
    by (auto simp: lap_time_text_complete)
  ultimately show ?case by simp
qed

lemma report_rows_length:
  "report_rows order n i xs = Inr rows \<Longrightarrow> length rows = length xs"
  by (induction xs arbitrary: i rows) (auto split: sum.splits)

lemma not_eliminated_asc:
  "report_rows ''asc'' n i xs = Inr rows \<Longrightarrow>
     map fst (filter (\<lambda>(d, row). \<not> eliminated row) (zip xs rows)) = take (nat (16 - i)) xs"
proof (induction xs arbitrary: i rows)
  case Nil
  then show ?case by simp
next
  case (Cons x xs)
  from Cons.prems obtain s rest where
    s: "lap_time_text x = Inr s" and rest: "report_rows ''asc'' n (i + 1) xs = Inr rest" and
    rows: "rows = \<lparr>name = driver_name x, team' = team x, lap_time = s, position = i,
                    eliminated = (i > 15)\<rparr> # rest"
    by (auto split: sum.splits)
  have IH: "map fst (filter (\<lambda>(d, row). \<not> eliminated row) (zip xs rest)) = take (nat (16 - (i + 1))) xs"
    using rest by (rule Cons.IH)
  show ?case
  proof (cases "i > 15")
    case True
    then have "nat (16 - i) = 0" "nat (16 - (i + 1)) = 0" by simp_all
    with IH True rows show ?thesis by simp
  next
    case False
    then have "nat (16 - i) = Suc (nat (16 - (i + 1)))" by simp
    with IH False rows show ?thesis by simp
  qed
qed

lemma not_eliminated_other:
  "order \<noteq> ''asc'' \<Longrightarrow> report_rows order n i xs = Inr rows \<Longrightarrow>
     map fst (filter (\<lambda>(d, row). \<not> eliminated row) (zip xs rows)) = drop (nat (n - 14 - i)) xs"
proof (induction xs arbitrary: i rows)
  case Nil
  then show ?case by simp
next
  case (Cons x xs)
  from Cons.prems obtain s rest where
    s: "lap_time_text x = Inr s" and rest: "report_rows order n (i + 1) xs = Inr rest" and
    rows: "rows = \<lparr>name = driver_name x, team' = team x, lap_time = s, position = i,
                    eliminated = (i \<le> n - 15)\<rparr> # rest"
    by (auto split: sum.splits)
  have IH: "map fst (filter (\<lambda>(d, row). \<not> eliminated row) (zip xs rest)) = drop (nat (n - 14 - (i + 1))) xs"
    using Cons.prems(1) rest by (rule Cons.IH)
  show ?case
  proof (cases "i \<le> n - 15")
    case True
    then have "nat (n - 14 - i) = Suc (nat (n - 14 - (i + 1)))" by simp
    with IH True rows show ?thesis by simp
  next
    case False
    then have "nat (n - 14 - i) = 0" "nat (n - 14 - (i + 1)) = 0" by simp_all
    with IH False rows show ?thesis by simp
  qed
qed

lemma report_rows_name:
  "report_rows order n i xs = Inr rows \<Longrightarrow> map name rows = map driver_name xs"
  by (induction xs arbitrary: i rows) (auto split: sum.splits)

lemma report_rows_eliminated:
  "report_rows order n i xs = Inr rows \<Longrightarrow>
     map eliminated rows
       = map (\<lambda>j. if order = ''asc'' then i + int j > 15 else i + int j \<le> n - 15)
           [0..<length xs]"
proof (induction xs arbitrary: i rows)
  case Nil
  then show ?case by simp
next
  case (Cons x xs)
  from Cons.prems obtain s rest where
    rest: "report_rows order n (i + 1) xs = Inr rest" and
    rows: "rows = \<lparr>name = driver_name x, team' = team x, lap_time = s, position = i,
                    eliminated = (if order = ''asc'' then i > 15 else i \<le> n - 15)\<rparr> # rest"
    by (auto split: sum.splits)
  have "[0..<length (x # xs)] = 0 # map Suc [0..<length xs]"
    by (simp add: upt_conv_Cons map_Suc_upt del: upt_Suc)
  with Cons.IH [OF rest] rows show ?case
    by (simp add: comp_def add.assoc del: upt_Suc)
qed

lemma report_rows_flag:
  "report_rows order n i xs = Inr rows \<Longrightarrow>
     \<forall>r\<in>set rows. eliminated r
       = (if order = ''asc'' then position r > 15 else position r \<le> n - 15)"
  by (induction xs arbitrary: i rows) (auto split: sum.splits)

lemma get_report_data_complete:
  assumes "\<forall>d\<in>set (dict_values drivers). end_time d \<noteq> None"
  shows "\<exists>ranked rows. rank_drivers drivers order = Inr ranked
           \<and> get_report_data drivers order = Inr rows \<and> length rows = length ranked"
proof -
  from rank_drivers_complete [OF assms, of order]
  obtain ranked where r: "rank_drivers drivers order = Inr ranked" by simp
  then have "set ranked = set (dict_values drivers)" by (rule set_rank_drivers)
  with assms have "\<forall>d\<in>set ranked. end_time d \<noteq> None" by simp
  then obtain rows where rows: "report_rows order (int (length ranked)) 1 ranked = Inr rows"
    using report_rows_complete by blast
  then have "length rows = length ranked" by (rule report_rows_length)
  with r rows show ?thesis by (simp add: get_report_data_def)
qed

lemma advancing_eq:
  assumes "rank_drivers drivers order = Inr ranked"
  shows "advancing drivers order
           = Inr (if order = ''asc'' then take 15 ranked
                  else drop (length ranked - 15) ranked)"
proof -
  have "\<forall>d\<in>set (dict_values drivers). end_time d \<noteq> None"
    using assms by (rule set_rank_drivers)
  from get_report_data_complete [OF this, of order] assms
  obtain rows where rows: "get_report_data drivers order = Inr rows" by auto
  with assms have rr: "report_rows order (int (length ranked)) 1 ranked = Inr rows"
    by (simp add: get_report_data_def)
  show ?thesis
  proof (cases "order = ''asc''")
    case True
    with rr have "map fst (filter (\<lambda>(d, row). \<not> eliminated row) (zip ranked rows)) = take 15 ranked"
      using not_eliminated_asc [of "int (length ranked)" 1 ranked rows] by simp
    with assms rows True show ?thesis by (simp add: advancing_def)
  next
    case False
    have "nat (int (length ranked) - 14 - 1) = length ranked - 15" by simp
    with False rr have "map fst (filter (\<lambda>(d, row). \<not> eliminated row) (zip ranked rows))
                          = drop (length ranked - 15) ranked"
      using not_eliminated_other [of order "int (length ranked)" 1 ranked rows] by simp
    with assms rows False show ?thesis by (simp add: advancing_def)
  qed
qed

subsection \<open>The first records of a sorted list\<close>

lemma sorted_filter_le_take:
  "sorted (map f xs) \<Longrightarrow>
     filter (\<lambda>x. f x \<le> k) xs = take (length (filter (\<lambda>x. f x \<le> k) xs)) xs"
proof (induction xs)
  case Nil
  show ?case by simp
next
  case (Cons x xs)
  then have le: "\<forall>y\<in>set xs. f x \<le> f y" and srt: "sorted (map f xs)" by simp_all
  show ?case
  proof (cases "f x \<le> k")
    case True
    with Cons.IH [OF srt] show ?thesis by simp
  next
    case False
    with le have "\<forall>y\<in>set xs. \<not> f y \<le> k" by fastforce
    then have "filter (\<lambda>x. f x \<le> k) xs = []" by (simp add: filter_empty_conv)
    with False show ?thesis by simp
  qed
qed

lemma sorted_take_filter:
  assumes srt: "sorted (map f xs)" and m: "Suc m < length xs"
    and gap: "f (xs ! m) \<noteq> f (xs ! Suc m)"
  shows "take (Suc m) xs = filter (\<lambda>x. f x \<le> f (xs ! m)) xs"
proof -
  have mono: "f (xs ! i) \<le> f (xs ! j)" if "i \<le> j" "j < length xs" for i j
    using srt that by (simp add: sorted_iff_nth_mono)
  have lt: "f (xs ! m) < f (xs ! Suc m)"
    using mono [of m "Suc m"] m gap by simp
  have low: "\<forall>x\<in>set (take (Suc m) xs). f x \<le> f (xs ! m)"
  proof
    fix x assume "x \<in> set (take (Suc m) xs)"
    then obtain i where "i < Suc m" "x = xs ! i"
      using m by (auto simp: in_set_conv_nth)
    with mono [of i m] m show "f x \<le> f (xs ! m)" by simp
  qed
  have high: "\<forall>x\<in>set (drop (Suc m) xs). \<not> f x \<le> f (xs ! m)"
  proof
    fix x assume "x \<in> set (drop (Suc m) xs)"
    then obtain i where "i < length xs - Suc m" "x = xs ! (Suc m + i)"
      by (auto simp: in_set_conv_nth)
    with mono [of "Suc m" "Suc m + i"] have "f (xs ! Suc m) \<le> f x" by simp
    with lt show "\<not> f x \<le> f (xs ! m)" by simp
  qed
  have "filter (\<lambda>x. f x \<le> f (xs ! m)) xs
          = filter (\<lambda>x. f x \<le> f (xs ! m)) (take (Suc m) xs)
            @ filter (\<lambda>x. f x \<le> f (xs ! m)) (drop (Suc m) xs)"
    by (simp only: filter_append [symmetric] append_take_drop_id)
  also have "filter (\<lambda>x. f x \<le> f (xs ! m)) (take (Suc m) xs) = take (Suc m) xs"
    using low by (simp only: filter_True)
  also have "filter (\<lambda>x. f x \<le> f (xs ! m)) (drop (Suc m) xs) = []"
    using high by (simp add: filter_empty_conv)
  finally show ?thesis by simp
qed

lemma take_sorted_rev_eq:
  fixes f :: "'a \<Rightarrow> 'k::linorder"
  assumes m: "Suc m < length xs"
    and gap: "f (sort_key f xs ! m) \<noteq> f (sort_key f xs ! Suc m)"
  shows "set (take (Suc m) (sort_key f (rev xs))) = set (take (Suc m) (sort_key f xs))"
proof -
  let ?A = "sort_key f xs" and ?S = "sort_key f (rev xs)"
  let ?P = "\<lambda>x. f x \<le> f (?A ! m)"
  have A: "take (Suc m) ?A = filter ?P ?A"
    using m gap by (intro sorted_take_filter) simp_all
  have "length (filter ?P xs) = length (filter ?P ?A)"
    by (simp add: filter_sort)
  also have "\<dots> = Suc m" using A [symmetric] m by simp
  finally have n: "length (filter ?P xs) = Suc m" .
  have "length (filter ?P ?S) = length (filter ?P (rev xs))"
    by (simp add: filter_sort)
  also have "\<dots> = Suc m" using n by (simp add: rev_filter [symmetric])
  finally have "filter ?P ?S = take (Suc m) ?S"
    using sorted_filter_le_take [of f ?S "f (?A ! m)"] by simp
  then have "set (take (Suc m) ?S) = set (filter ?P ?S)" by simp
  also have "\<dots> = set (filter ?P ?A)" by auto
  also have "\<dots> = set (take (Suc m) ?A)" using A by simp
  finally show ?thesis .
qed

subsection \<open>The example inputs evaluated\<close>

lemma log_pattern_list:
  "log_pattern =
     [Upper, Upper, Upper, Digit, Digit, Digit, Digit, Lit CHR ''-'', Digit, Digit,
      Lit CHR ''-'', Digit, Digit, Lit CHR ''_'', Digit, Digit, Lit CHR '':'', Digit, Digit,
      Lit CHR '':'', Digit, Digit, Lit CHR ''.'', Digit, Digit, Digit]"
  by (simp add: log_pattern_def eval_nat_numeral)

lemmas parse_defs =
  with_newlines_def re_match_def log_pattern_list strip_def is_space_def strptime_def
  to_nat_def digit_val_def days_in_month_def is_leap_def

lemma read_start_log:
  "read_log_file start_log
     = Inr [(''SVF'', start_time vettel), (''DRR'', start_time ricciardo)]"
  by (simp add: read_log_file_def start_log_def vettel_def ricciardo_def parse_defs)

lemma read_end_log:
  "read_log_file end_log
     = Inr [(''SVF'', the (end_time vettel)), (''DRR'', the (end_time ricciardo))]"
  by (simp add: read_log_file_def end_log_def vettel_def ricciardo_def parse_defs)

lemma example_built:
  "build_drivers [(''SVF'', start_time vettel), (''DRR'', start_time ricciardo)]
     [(''SVF'', the (end_time vettel)), (''DRR'', the (end_time ricciardo))] []
   = [(''SVF'', vettel\<lparr>driver_name := '''', team := ''''\<rparr>),
      (''DRR'', ricciardo\<lparr>driver_name := '''', team := ''''\<rparr>)]"
  by (simp add: vettel_def ricciardo_def)

lemma example_load:
  "process_files start_log end_log abbreviations = Inr [(''SVF'', vettel), (''DRR'', ricciardo)]"
  by (simp add: process_files_def read_start_log read_end_log example_built
      integrate_driver_info_def abbreviations_def with_newlines_def strip_def is_space_def)
     (simp add: vettel_def ricciardo_def)

lemma lap_vettel: "driver_lap_time vettel = Inr (Some 64415000)"
  by (simp add: driver_lap_time_def vettel_def dt_less_def dt_sub_def toordinal_def)

lemma lap_ricciardo: "driver_lap_time ricciardo = Inr None"
  by (simp add: driver_lap_time_def ricciardo_def dt_less_def)

lemma lap_zero_lap: "driver_lap_time zero_lap = Inr (Some 0)"
  by (simp add: driver_lap_time_def zero_lap_def dt_less_def dt_sub_def toordinal_def)

lemma lap_start_only: "driver_lap_time start_only = Inl AttributeError"
  by (simp add: driver_lap_time_def start_only_def)

lemma rank_key_vettel: "rank_key vettel = Inr (False, Some 64415000)"
  by (simp add: rank_key_def lap_vettel)

lemma rank_key_ricciardo: "rank_key ricciardo = Inr (True, None)"
  by (simp add: rank_key_def lap_ricciardo)

lemma duration_timed: "duration (timed c s) = Some (60000000 + int s * 1000000)"
  by (simp add: duration_def timed_def noon_def dt_less_def dt_sub_def toordinal_def)

lemma pure_key_timed: "pure_key (timed c s) = (False, Some (60000000 + int s * 1000000))"
  by (simp add: pure_key_def duration_timed)

lemma end_time_timed: "end_time (timed c s) = Some (noon\<lparr>minute := 1, second := s\<rparr>)"
  by (simp add: timed_def)

lemma rank_sixteen:
  "rank_drivers sixteen order = Inr (dict_values sixteen)"
proof -
  have c: "\<forall>d\<in>set (dict_values sixteen). end_time d \<noteq> None"
    by (auto simp: sixteen_def dict_values_def end_time_timed)
  have k: "map pure_key xs = map (\<lambda>_. (False, Some 90000000)) xs"
    if "set xs \<subseteq> set (dict_values sixteen)" for xs
    using that by (auto simp: sixteen_def dict_values_def pure_key_timed)
  have "sorted (map pure_key xs)" if "set xs \<subseteq> set (dict_values sixteen)" for xs
    unfolding k [OF that] by (induction xs) simp_all
  then have "sort_key pure_key xs = xs" if "set xs \<subseteq> set (dict_values sixteen)" for xs
    using that by (simp add: sort_key_id_if_sorted)
  then have "sort_key pure_key (dict_values sixteen) = dict_values sixteen"
    "sort_key pure_key (rev (dict_values sixteen)) = rev (dict_values sixteen)"
    by simp_all
  with rank_drivers_complete [OF c, of order] show ?thesis by simp
qed

lemma rank_grid: "order \<noteq> ''desc'' \<Longrightarrow> rank_drivers grid order = Inr (dict_values grid)"
proof -
  assume asc: "order \<noteq> ''desc''"
  have v: "dict_values grid
             = map (\<lambda>(c, s). timed c s)
                 (zip codes16 [30, 31, 32, 33, 34, 35, 36, 37, 38, 39, 40, 41, 42, 43, 44, 45])"
    by (simp add: grid_def dict_values_def comp_def split_def)
  have c: "\<forall>d\<in>set (dict_values grid). end_time d \<noteq> None"
    unfolding v by (simp add: codes16_def end_time_timed)
  have "sorted (map pure_key (dict_values grid))"
    unfolding v by (simp add: codes16_def pure_key_timed)
  then have "sort_key pure_key (dict_values grid) = dict_values grid"
    by (rule sort_key_id_if_sorted)
  with rank_drivers_complete [OF c, of order] asc show ?thesis by simp
qed

lemma grid_cutoff:
  "length (dict_values grid) = 16"
  "dict_values grid ! 14 = timed ''OOO'' 44" "dict_values grid ! 15 = timed ''PPP'' 45"
  by (simp_all add: grid_def dict_values_def codes16_def)

lemma show_int_small: "show_int 0 = ''0''" "zero_pad 2 0 = ''00''" "zero_pad 2 1 = ''01''"
  "zero_pad 2 4 = ''04''" "zero_pad 6 415000 = ''415000''"
  by (simp_all add: zero_pad_def show_int_def show_nat.simps digit_char_def)

lemma str_timedelta_zero: "str_timedelta 0 = ''0:00:00''"
  by (simp add: str_timedelta_def show_int_small)

lemma str_timedelta_vettel: "str_timedelta 64415000 = ''0:01:04.415000''"
  by (simp add: str_timedelta_def show_int_small)

subsection \<open>Dictionaries\<close>

lemma map_of_dict_set: "map_of (dict_set k v d) = (map_of d)(k \<mapsto> v)"
  by (induction d) auto

lemma keys_dict_set: "set (map fst (dict_set k v d)) = insert k (set (map fst d))"
proof -
  have "set (map fst (dict_set k v d)) = dom (map_of (dict_set k v d))"
    by (simp add: dom_map_of_conv_image_fst)
  also have "\<dots> = insert k (dom (map_of d))"
    by (simp add: map_of_dict_set)
  finally show ?thesis by (simp add: dom_map_of_conv_image_fst)
qed

lemma set_dict_set: "set (dict_set k v d) \<subseteq> insert (k, v) (set d)"
  by (induction d) (auto split: if_splits)

lemma distinct_dict_set: "distinct (map fst d) \<Longrightarrow> distinct (map fst (dict_set k v d))"
proof (induction d)
  case Nil
  show ?case by simp
next
  case (Cons p d)
  obtain k' v' where p: "p = (k', v')" by (cases p)
  show ?case
  proof (cases "k = k'")
    case True
    with Cons.prems p show ?thesis by simp
  next
    case False
    have "set (map fst (dict_set k v d)) = insert k (set (map fst d))"
      by (rule keys_dict_set)
    with False Cons p show ?thesis by auto
  qed
qed

lemma dict_set_new: "k \<notin> set (map fst d) \<Longrightarrow> dict_set k v d = d @ [(k, v)]"
  by (induction d) auto

lemma dict_set_old: "map_of d k = Some x \<Longrightarrow> map fst (dict_set k v d) = map fst d"
  by (induction d) (auto split: if_splits)

subsection \<open>Reading a log\<close>

lemma read_lines_append:
  "read_lines (xs @ ys) data
     = (case read_lines xs data of Inl e \<Rightarrow> Inl e | Inr data' \<Rightarrow> read_lines ys data')"
  by (induction xs arbitrary: data) (auto split: option.splits sum.splits)

lemma read_lines_distinct:
  "read_lines ls data = Inr data' \<Longrightarrow> distinct (map fst data) \<Longrightarrow> distinct (map fst data')"
proof (induction ls arbitrary: data)
  case Nil
  then show ?case by simp
next
  case (Cons l ls)
  show ?case
  proof (cases "re_match (strip l)")
    case None
    with Cons show ?thesis by simp
  next
    case (Some m)
    obtain c ts where m: "m = (c, ts)" by (cases m)
    with Some Cons.prems(1) obtain t where
      t: "strptime ts = Inr t" and rest: "read_lines ls (dict_set c t data) = Inr data'"
      by (auto split: sum.splits)
    from Cons.prems(2) have "distinct (map fst (dict_set c t data))"
      by (rule distinct_dict_set)
    with rest show ?thesis by (rule Cons.IH)
  qed
qed

lemma last_line_of_Cons:
  "last_line_of c (l # ls)
     = (case last_line_of c ls of
          Some l' \<Rightarrow> Some l'
        | None \<Rightarrow> if line_code l = Some c then Some l else None)"
  by (auto simp: last_line_of_def split: list.splits)

lemma read_lines_lookup:
  "read_lines ls data = Inr data' \<Longrightarrow>
     (case last_line_of c ls of
        None \<Rightarrow> map_of data' c = map_of data c
      | Some l \<Rightarrow> \<exists>ts t. re_match (strip l) = Some (c, ts) \<and> strptime ts = Inr t
                          \<and> map_of data' c = Some t)"
proof (induction ls arbitrary: data)
  case Nil
  then show ?case by (simp add: last_line_of_def)
next
  case (Cons l ls)
  show ?case
  proof (cases "re_match (strip l)")
    case None
    then have "line_code l \<noteq> Some c" by (simp add: line_code_def)
    moreover from None Cons.prems have "read_lines ls data = Inr data'" by simp
    ultimately show ?thesis
      using Cons.IH [of data] by (auto simp: last_line_of_Cons split: option.splits)
  next
    case (Some m)
    obtain c' ts where m: "m = (c', ts)" by (cases m)
    with Some Cons.prems obtain t where
      t: "strptime ts = Inr t" and rest: "read_lines ls (dict_set c' t data) = Inr data'"
      by (auto split: sum.splits)
    have code: "line_code l = Some c'"
      using Some m by (simp add: line_code_def)
    note IH = Cons.IH [OF rest]
    show ?thesis
    proof (cases "last_line_of c ls")
      case (Some l')
      with IH show ?thesis by (simp add: last_line_of_Cons)
    next
      case None
      with IH have same: "map_of data' c = map_of (dict_set c' t data) c" by simp
      show ?thesis
      proof (cases "c' = c")
        case True
        with same have "map_of data' c = Some t" by (simp add: map_of_dict_set)
        with None code True \<open>re_match (strip l) = Some m\<close> m t show ?thesis
          by (simp add: last_line_of_Cons)
      next
        case False
        with same have "map_of data' c = map_of data c" by (simp add: map_of_dict_set)
        with None code False show ?thesis by (simp add: last_line_of_Cons)
      qed
    qed
  qed
qed

lemma read_log_file_distinct: "read_log_file f = Inr data \<Longrightarrow> distinct (map fst data)"
  by (cases f) (auto simp: read_log_file_def dest: read_lines_distinct)

subsection \<open>Building and enriching the records\<close>

lemma build_drivers_fresh:
  "distinct (map fst start_times) \<Longrightarrow> set (map fst start_times) \<inter> set (map fst drivers) = {} \<Longrightarrow>
     build_drivers start_times end_times drivers
       = drivers @ map (\<lambda>(init, start).
           (init, \<lparr>driver_init = init, start_time = start, end_time = map_of end_times init,
                    driver_name = '''', team = ''''\<rparr>)) start_times"
proof (induction start_times arbitrary: drivers)
  case Nil
  show ?case by simp
next
  case (Cons p rest)
  obtain init start where p: "p = (init, start)" by (cases p)
  let ?d = "\<lparr>driver_init = init, start_time = start, end_time = map_of end_times init,
              driver_name = '''', team = ''''\<rparr>"
  have new: "dict_set init ?d drivers = drivers @ [(init, ?d)]"
    using Cons.prems(2) p by (intro dict_set_new) auto
  have "build_drivers (p # rest) end_times drivers
          = build_drivers rest end_times (dict_set init ?d drivers)"
    by (cases "map_of end_times init") (simp_all add: p)
  also have "\<dots> = build_drivers rest end_times (drivers @ [(init, ?d)])"
    by (simp only: new)
  also have "\<dots> = (drivers @ [(init, ?d)]) @ map (\<lambda>(init, start).
           (init, \<lparr>driver_init = init, start_time = start, end_time = map_of end_times init,
                    driver_name = '''', team = ''''\<rparr>)) rest"
    using Cons.prems p by (intro Cons.IH) auto
  finally show ?case by (simp add: p)
qed

lemma build_drivers_eq:
  "distinct (map fst start_times) \<Longrightarrow>
     build_drivers start_times end_times []
       = map (\<lambda>(init, start).
           (init, \<lparr>driver_init = init, start_time = start, end_time = map_of end_times init,
                    driver_name = '''', team = ''''\<rparr>)) start_times"
  using build_drivers_fresh [of start_times "[]" end_times] by simp

lemma keyed_by_init_dict_set:
  "keyed_by_init drivers \<Longrightarrow> driver_init d = init \<Longrightarrow> keyed_by_init (dict_set init d drivers)"
  using set_dict_set [of init d drivers] by (auto simp: keyed_by_init_def)

lemma integrate_lines_keys:
  "integrate_lines ls drivers = Inr drivers' \<Longrightarrow>
     map fst drivers' = map fst drivers \<and> (keyed_by_init drivers \<longrightarrow> keyed_by_init drivers')"
proof (induction ls arbitrary: drivers)
  case Nil
  then show ?case by simp
next
  case (Cons l ls)
  from Cons.prems obtain init nm tm where
    f: "split_on CHR ''_'' (strip l) = [init, nm, tm]"
    by (auto split: list.splits)
  show ?case
  proof (cases "map_of drivers init")
    case None
    with f Cons.prems have "integrate_lines ls drivers = Inr drivers'" by simp
    then show ?thesis by (rule Cons.IH)
  next
    case (Some d)
    let ?ds = "dict_set init (d\<lparr>driver_name := nm, team := tm\<rparr>) drivers"
    from Some f Cons.prems have "integrate_lines ls ?ds = Inr drivers'" by simp
    then have "map fst drivers' = map fst ?ds \<and> (keyed_by_init ?ds \<longrightarrow> keyed_by_init drivers')"
      by (rule Cons.IH)
    moreover have "map fst ?ds = map fst drivers"
      using Some by (rule dict_set_old)
    moreover have "keyed_by_init ?ds" if k: "keyed_by_init drivers"
    proof -
      from Some have "(init, d) \<in> set drivers" by (rule map_of_SomeD)
      with k have "driver_init d = init" by (auto simp: keyed_by_init_def)
      with k show ?thesis by (intro keyed_by_init_dict_set) simp_all
    qed
    ultimately show ?thesis by simp
  qed
qed

lemma integrate_driver_info_keys:
  "integrate_driver_info f drivers = Inr drivers' \<Longrightarrow>
     map fst drivers' = map fst drivers \<and> (keyed_by_init drivers \<longrightarrow> keyed_by_init drivers')"
  by (cases f) (auto simp: integrate_driver_info_def dest: integrate_lines_keys)

lemma process_files_keys:
  assumes "process_files s e a = Inr drivers"
  shows "distinct (map fst drivers)" and "keyed_by_init drivers"
proof -
  from assms obtain start_times end_times where
    st: "read_log_file s = Inr start_times" and en: "read_log_file e = Inr end_times" and
    int: "integrate_driver_info a (build_drivers start_times end_times []) = Inr drivers"
    by (auto simp: process_files_def split: sum.splits)
  let ?built = "build_drivers start_times end_times []"
  have d: "distinct (map fst start_times)"
    using st by (rule read_log_file_distinct)
  have built: "?built = map (\<lambda>(init, start).
           (init, \<lparr>driver_init = init, start_time = start, end_time = map_of end_times init,
                    driver_name = '''', team = ''''\<rparr>)) start_times"
    using d by (rule build_drivers_eq)
  have "map fst ?built = map fst start_times"
    unfolding built by (simp add: comp_def split_def)
  moreover have "keyed_by_init ?built"
    unfolding built by (auto simp: keyed_by_init_def)
  ultimately show "distinct (map fst drivers)" "keyed_by_init drivers"
    using integrate_driver_info_keys [OF int] d by simp_all
qed

lemma read_noisy_log:
  "read_log_file (Readable noisy_log)
     = Inr [(''SVF'', start_time vettel), (''DRR'', start_time ricciardo)]"
  by (simp add: read_log_file_def noisy_log_def vettel_def ricciardo_def parse_defs)

subsection \<open>Where the ranking puts the records without a duration\<close>

lemma lap_None_iff:
  "end_time d \<noteq> None \<Longrightarrow> driver_lap_time d = Inr None \<longleftrightarrow> duration d = None"
  by (auto simp: driver_lap_time_complete)

lemma sorted_undefined_last:
  assumes "sorted (map pure_key xs)" and "i \<le> j" and "j < length xs"
    and "duration (xs ! i) = None"
  shows "duration (xs ! j) = None"
proof -
  have "map pure_key xs ! i \<le> map pure_key xs ! j"
    using assms(1-3) by (intro sorted_nth_mono) simp_all
  then have "pure_key (xs ! i) \<le> pure_key (xs ! j)"
    using assms(2,3) by simp
  with assms(4) show ?thesis
    by (cases "duration (xs ! j)") (auto simp: pure_key_def less_eq_prod_def)
qed

lemma rank_asc_anomalies_last:
  assumes "order \<noteq> ''desc''" and "rank_drivers drivers order = Inr ranked"
    and "i < j" and "j < length ranked" and "driver_lap_time (ranked ! i) = Inr None"
  shows "driver_lap_time (ranked ! j) = Inr None"
proof -
  have complete: "\<forall>d\<in>set (dict_values drivers). end_time d \<noteq> None"
    using assms(2) by (rule set_rank_drivers)
  have ranked: "ranked = sort_key pure_key (dict_values drivers)"
    using rank_drivers_complete [OF complete, of order] assms(1,2) by simp
  have "set ranked = set (dict_values drivers)"
    using assms(2) by (rule set_rank_drivers)
  with complete assms(3,4) have e: "end_time (ranked ! i) \<noteq> None" "end_time (ranked ! j) \<noteq> None"
    by (metis nth_mem order.strict_trans)+
  have "sorted (map pure_key ranked)" by (simp add: ranked)
  moreover have "duration (ranked ! i) = None"
    using assms(5) e by (simp add: lap_None_iff)
  ultimately have "duration (ranked ! j) = None"
    using assms(3,4) by (intro sorted_undefined_last [of ranked i j]) simp_all
  with e show ?thesis by (simp add: lap_None_iff)
qed

lemma rank_desc_anomalies_first:
  assumes "rank_drivers drivers ''desc'' = Inr ranked"
    and "i < j" and "j < length ranked" and "driver_lap_time (ranked ! j) = Inr None"
  shows "driver_lap_time (ranked ! i) = Inr None"
proof -
  let ?S = "sort_key pure_key (rev (dict_values drivers))"
  have complete: "\<forall>d\<in>set (dict_values drivers). end_time d \<noteq> None"
    using assms(1) by (rule set_rank_drivers)
  have ranked: "ranked = rev ?S"
    using rank_drivers_complete [OF complete, of "''desc''"] assms(1) by simp
  have "set ranked = set (dict_values drivers)"
    using assms(1) by (rule set_rank_drivers)
  with complete assms(2,3) have e: "end_time (ranked ! i) \<noteq> None" "end_time (ranked ! j) \<noteq> None"
    by (metis nth_mem order.strict_trans)+
  have n: "length ?S = length ranked" by (simp add: ranked)
  have at: "ranked ! k = ?S ! (length ranked - Suc k)" if "k < length ranked" for k
    using that n by (simp add: ranked rev_nth)
  have "sorted (map pure_key ?S)" by simp
  moreover have "duration (?S ! (length ranked - Suc j)) = None"
    using assms(3,4) e at [of j] by (simp add: lap_None_iff)
  ultimately have "duration (?S ! (length ranked - Suc i)) = None"
    using assms(2,3) n
    by (intro sorted_undefined_last [of ?S "length ranked - Suc j" "length ranked - Suc i"])
       simp_all
  with assms(2,3) e at [of i] show ?thesis by (simp add: lap_None_iff)
qed

subsection \<open>When the lap-time text is the sentinel\<close>

lemma digit_char_digit: "digit_char n \<in> set ''0123456789''"
proof -
  have "n mod 10 < length ''0123456789''" by simp
  then show ?thesis unfolding digit_char_def by (rule nth_mem)
qed

lemma show_nat_digits: "show_nat n \<noteq> [] \<and> hd (show_nat n) \<in> set ''0123456789''"
proof (induction n rule: show_nat.induct)
  case (1 n)
  show ?case
  proof (cases "n < 10")
    case True
    then have "show_nat n = [digit_char n]" by (simp add: show_nat.simps)
    with digit_char_digit [of n] show ?thesis by simp
  next
    case False
    then have "show_nat n = show_nat (n div 10) @ [digit_char n]"
      by (subst show_nat.simps) simp
    with 1 False show ?thesis by simp
  qed
qed

lemma show_int_head: "show_int i \<noteq> [] \<and> hd (show_int i) \<in> set ''-0123456789''"
  using show_nat_digits [of "nat i"] by (auto simp: show_int_def)

lemma str_timedelta_head: "hd (str_timedelta td) \<in> set ''-0123456789''"
proof -
  have "\<exists>i rest. str_timedelta td = show_int i @ rest"
    unfolding str_timedelta_def Let_def
    by (simp only: append_assoc split: if_split) blast
  then obtain i rest where "str_timedelta td = show_int i @ rest" by blast
  with show_int_head [of i] show ?thesis by simp
qed

lemma str_timedelta_not_sentinel: "str_timedelta td \<noteq> ''NO TIME''"
proof
  assume "str_timedelta td = ''NO TIME''"
  with str_timedelta_head [of td] show False by simp
qed

lemma lap_time_text_sentinel_iff:
  assumes "end_time d \<noteq> None"
  shows "lap_time_text d = Inr ''NO TIME'' \<longleftrightarrow> duration d = None \<or> duration d = Some 0"
  using assms str_timedelta_not_sentinel
  by (cases "duration d") (auto simp: lap_time_text_complete truthy_def py_str_def)

subsection \<open>The pattern of the log lines\<close>

text \<open>The matcher accepts exactly the strings that begin with a code and a timestamp in
  the words of the specification, and returns the two.\<close>

lemma match_prefix_append:
  "match_prefix (p @ q) s
     \<longleftrightarrow> (\<exists>a b. s = a @ b \<and> length a = length p \<and> match_prefix p a \<and> match_prefix q b)"
proof (induction p s rule: match_prefix.induct)
  case (1 s)
  show ?case by simp
next
  case (2 p ps)
  show ?case by simp
next
  case (3 p ps c cs)
  show ?case
  proof
    assume "match_prefix ((p # ps) @ q) (c # cs)"
    with 3 obtain a b where "cs = a @ b" "length a = length ps" "match_prefix ps a"
      "match_prefix q b" "cls_ok p c" by auto
    then have "c # cs = (c # a) @ b \<and> length (c # a) = length (p # ps)
                 \<and> match_prefix (p # ps) (c # a) \<and> match_prefix q b" by simp
    then show "\<exists>a b. c # cs = a @ b \<and> length a = length (p # ps)
                 \<and> match_prefix (p # ps) a \<and> match_prefix q b" by blast
  next
    assume "\<exists>a b. c # cs = a @ b \<and> length a = length (p # ps)
                 \<and> match_prefix (p # ps) a \<and> match_prefix q b"
    then obtain a b where ab: "c # cs = a @ b" "length a = length (p # ps)"
      "match_prefix (p # ps) a" "match_prefix q b" by blast
    from ab(2) obtain a' where a: "a = c # a'" using ab(1) by (cases a) auto
    with ab have "cs = a' @ b" "length a' = length ps" "match_prefix ps a'" "cls_ok p c"
      by auto
    with ab(4) 3 show "match_prefix ((p # ps) @ q) (c # cs)" by auto
  qed
qed

lemma match_prefix_replicate:
  "length s = n \<Longrightarrow> match_prefix (replicate n cl) s \<longleftrightarrow> (\<forall>c\<in>set s. cls_ok cl c)"
  by (induction n arbitrary: s) (auto simp: length_Suc_conv)

lemma match_prefix_Lit: "length a = 1 \<Longrightarrow> match_prefix [Lit l] a \<longleftrightarrow> a = [l]"
  by (cases a) auto

lemma match_prefix_exact:
  "length a = length p \<Longrightarrow> match_prefix (p @ q) (a @ b) \<longleftrightarrow> match_prefix p a \<and> match_prefix q b"
  by (induction p a rule: match_prefix.induct) auto

lemma match_prefix_exact_end:
  "length a = length p \<Longrightarrow> match_prefix p (a @ b) \<longleftrightarrow> match_prefix p a"
  using match_prefix_exact [of a p "[]" b] by simp

lemma shaped_matches:
  assumes "code_shaped c" and "timestamp_shaped t"
  shows "re_match (c @ t @ rest) = Some (c, t)"
proof -
  from assms(2) obtain Y M D h m s f where
    d: "digits 4 Y" "digits 2 M" "digits 2 D" "digits 2 h" "digits 2 m" "digits 2 s" "digits 3 f"
    and t: "t = Y @ ''-'' @ M @ ''-'' @ D @ ''_'' @ h @ '':'' @ m @ '':'' @ s @ ''.'' @ f"
    by (auto simp: timestamp_shaped_def)
  have len: "length c = 3" "length t = 23"
    using assms(1) d by (simp_all add: code_shaped_def digits_def t)
  have "match_prefix log_pattern (c @ t @ rest)"
    using assms(1) d unfolding log_pattern_def t code_shaped_def digits_def
    by (simp add: match_prefix_exact match_prefix_exact_end match_prefix_replicate)
  with len show ?thesis by (simp add: re_match_def)
qed

lemma class_step:
  assumes "match_prefix (replicate n cl @ q) s"
  obtains a b where "s = a @ b" "length a = n" "\<forall>c\<in>set a. cls_ok cl c" "match_prefix q b"
proof -
  from assms obtain a b where ab: "s = a @ b" "length a = length (replicate n cl)"
    "match_prefix (replicate n cl) a" "match_prefix q b"
    unfolding match_prefix_append by blast
  from ab(2) have "length a = n" by simp
  with ab(3) have "\<forall>c\<in>set a. cls_ok cl c" by (simp add: match_prefix_replicate)
  with ab \<open>length a = n\<close> that show thesis by blast
qed

lemma digits_step:
  assumes "match_prefix (replicate n Digit @ Lit l # q) s"
  obtains a b where "s = a @ l # b" "digits n a" "match_prefix q b"
proof -
  from assms obtain a b where ab: "s = a @ b" "length a = n" "\<forall>c\<in>set a. cls_ok Digit c"
    "match_prefix (Lit l # q) b"
    by (rule class_step)
  from ab(4) obtain b' where "b = l # b'" "match_prefix q b'" by (cases b) auto
  with ab that show thesis by (simp add: digits_def)
qed

lemma matches_shaped:
  assumes "re_match s = Some (c, t)"
  shows "code_shaped c \<and> timestamp_shaped t \<and> (\<exists>rest. s = c @ t @ rest)"
proof -
  let ?p6 = "replicate 3 Digit @ []"
  let ?p5 = "replicate 2 Digit @ Lit CHR ''.'' # ?p6"
  let ?p4 = "replicate 2 Digit @ Lit CHR '':'' # ?p5"
  let ?p3 = "replicate 2 Digit @ Lit CHR '':'' # ?p4"
  let ?p2 = "replicate 2 Digit @ Lit CHR ''_'' # ?p3"
  let ?p1 = "replicate 2 Digit @ Lit CHR ''-'' # ?p2"
  let ?p0 = "replicate 4 Digit @ Lit CHR ''-'' # ?p1"
  from assms have c: "c = take 3 s" and t: "t = take 23 (drop 3 s)"
    and "match_prefix log_pattern s"
    by (auto simp: re_match_def split: if_splits)
  then have "match_prefix (replicate 3 Upper @ ?p0) s"
    by (simp add: log_pattern_def)
  then obtain a r0 where a: "s = a @ r0" "length a = 3" "\<forall>x\<in>set a. cls_ok Upper x"
    and "match_prefix ?p0 r0" by (rule class_step)
  then obtain Y r1 where Y: "r0 = Y @ CHR ''-'' # r1" "digits 4 Y" and "match_prefix ?p1 r1"
    using digits_step by blast
  then obtain M r2 where M: "r1 = M @ CHR ''-'' # r2" "digits 2 M" and "match_prefix ?p2 r2"
    using digits_step by blast
  then obtain D r3 where D: "r2 = D @ CHR ''_'' # r3" "digits 2 D" and "match_prefix ?p3 r3"
    using digits_step by blast
  then obtain h r4 where h: "r3 = h @ CHR '':'' # r4" "digits 2 h" and "match_prefix ?p4 r4"
    using digits_step by blast
  then obtain mi r5 where mi: "r4 = mi @ CHR '':'' # r5" "digits 2 mi" and "match_prefix ?p5 r5"
    using digits_step by blast
  then obtain se r6 where se: "r5 = se @ CHR ''.'' # r6" "digits 2 se" and "match_prefix ?p6 r6"
    using digits_step by blast
  then obtain f rest where f: "r6 = f @ rest" "length f = 3" "\<forall>x\<in>set f. cls_ok Digit x"
    using class_step by blast
  then have df: "digits 3 f" by (simp add: digits_def)
  define T where "T = Y @ ''-'' @ M @ ''-'' @ D @ ''_'' @ h @ '':'' @ mi @ '':'' @ se @ ''.'' @ f"
  have s: "s = a @ T @ rest"
    by (simp add: T_def a(1) Y(1) M(1) D(1) h(1) mi(1) se(1) f(1))
  have "length T = 23"
    using Y(2) M(2) D(2) h(2) mi(2) se(2) df by (simp add: T_def digits_def)
  with a(2) have "c = a" "t = T" unfolding c t s by simp_all
  moreover have "code_shaped a" using a by (simp add: code_shaped_def)
  moreover have "timestamp_shaped T"
    unfolding timestamp_shaped_def T_def using Y(2) M(2) D(2) h(2) mi(2) se(2) df by blast
  ultimately show ?thesis using s by blast
qed

lemma re_match_iff:
  "re_match s = Some (c, t)
     \<longleftrightarrow> code_shaped c \<and> timestamp_shaped t \<and> (\<exists>rest. s = c @ t @ rest)"
  using matches_shaped [of s c t] shaped_matches [of c t] by auto

lemma re_match_None_iff:
  "re_match s = None
     \<longleftrightarrow> \<not> (\<exists>c t rest. code_shaped c \<and> timestamp_shaped t \<and> s = c @ t @ rest)"
proof -
  have "re_match s \<noteq> None \<longleftrightarrow> (\<exists>c t. re_match s = Some (c, t))" by auto
  also have "\<dots> \<longleftrightarrow> (\<exists>c t rest. code_shaped c \<and> timestamp_shaped t \<and> s = c @ t @ rest)"
    by (simp only: re_match_iff) blast
  finally show ?thesis by blast
qed

section \<open>The claims\<close>

subsection \<open>C1: anomaly records and the order of the ranking\<close>

text \<open>
  C1 says that \<^verbatim>\<open>rank_drivers\<close> places every record with a defined duration before
  every record with an undefined one, for \<^verbatim>\<open>asc\<close> and for \<^verbatim>\<open>desc\<close>, as the comment
  above the sort says (anomaly data is always at the end of the classification). For every
  order but \<^verbatim>\<open>desc\<close> the ranking does so (\<open>rank_asc_anomalies_last\<close>). For \<^verbatim>\<open>desc\<close>
  the sort reverses the whole order of the keys, and the records without a duration come
  first (\<open>rank_desc_anomalies_first\<close>): loaded from the example files, Vettel has a lap
  time of 1:04.415, Ricciardo ends before he starts, and the descending ranking puts
  Ricciardo first.
\<close>

theorem rank_desc_puts_anomaly_first:
  "process_files start_log end_log abbreviations = Inr [(''SVF'', vettel), (''DRR'', ricciardo)]
   \<and> driver_lap_time vettel = Inr (Some 64415000)
   \<and> driver_lap_time ricciardo = Inr None
   \<and> rank_drivers [(''SVF'', vettel), (''DRR'', ricciardo)] ''asc'' = Inr [vettel, ricciardo]
   \<and> rank_drivers [(''SVF'', vettel), (''DRR'', ricciardo)] ''desc'' = Inr [ricciardo, vettel]"
  by (simp add: example_load lap_vettel lap_ricciardo rank_drivers_def list_sort_def
      dict_values_def rank_key_vettel rank_key_ricciardo)

subsection \<open>C2: a record that has a start time only\<close>

text \<open>
  C2 says that the duration of a record whose code never appears in the end log (or whose
  end log is missing) is \<^verbatim>\<open>None\<close>, without an error, and that the record is ranked at the
  tail. \<^verbatim>\<open>process_files\<close> does build such a record, with \<^verbatim>\<open>end_time\<close> never
  assigned, when the end log is missing and when it has other codes only; reading
  \<^verbatim>\<open>driver_lap_time\<close> of it raises \<^verbatim>\<open>AttributeError\<close>, and so do the ranking and the report.
\<close>

theorem start_only_record_raises:
  "process_files (Readable [''SVF2018-05-24_12:02:58.917'']) Unreadable Unreadable
     = Inr [(''SVF'', start_only)]
   \<and> process_files (Readable [''SVF2018-05-24_12:02:58.917''])
         (Readable [''DRR2018-05-24_12:11:24.067'']) Unreadable
     = Inr [(''SVF'', start_only)]
   \<and> driver_lap_time start_only = Inl AttributeError
   \<and> rank_drivers [(''SVF'', start_only)] ''asc'' = Inl AttributeError
   \<and> rank_drivers [(''SVF'', start_only)] ''desc'' = Inl AttributeError
   \<and> get_report_data [(''SVF'', start_only)] ''asc'' = Inl AttributeError"
proof -
  have "process_files (Readable [''SVF2018-05-24_12:02:58.917'']) Unreadable Unreadable
          = Inr [(''SVF'', start_only)]"
    by (simp add: process_files_def read_log_file_def integrate_driver_info_def start_only_def
        parse_defs)
  moreover have "process_files (Readable [''SVF2018-05-24_12:02:58.917''])
          (Readable [''DRR2018-05-24_12:11:24.067'']) Unreadable = Inr [(''SVF'', start_only)]"
    by (simp add: process_files_def read_log_file_def integrate_driver_info_def start_only_def
        parse_defs)
  moreover have "rank_drivers [(''SVF'', start_only)] order = Inl AttributeError" for order
    by (rule rank_drivers_start_only) (simp add: dict_values_def start_only_def)
  ultimately show ?thesis
    by (simp add: lap_start_only get_report_data_def)
qed

subsection \<open>C3: the advancing set in both display orders\<close>

text \<open>
  C3 says that the entries that are not eliminated are the same participants in the
  descending and in the ascending report, for every mapping of records. Counterexample to
  C3: sixteen records with the same lap time of 1:30. Both rankings keep the order of the
  mapping, the ascending report advances the first fifteen and the descending report the
  last fifteen, so \<^verbatim>\<open>AAA\<close> advances in the one and is eliminated in the other.
\<close>

theorem advancing_differs_on_ties:
  "advancing sixteen ''asc'' = Inr (dict_values (butlast sixteen))
   \<and> advancing sixteen ''desc'' = Inr (dict_values (tl sixteen))
   \<and> timed ''AAA'' 30 \<in> set (dict_values (butlast sixteen))
   \<and> timed ''AAA'' 30 \<notin> set (dict_values (tl sixteen))
   \<and> set (dict_values (tl sixteen)) \<noteq> set (dict_values (butlast sixteen))"
proof -
  have "advancing sixteen ''asc'' = Inr (take 15 (dict_values sixteen))"
    using advancing_eq [OF rank_sixteen, of "''asc''"] by simp
  moreover have "advancing sixteen ''desc'' = Inr (drop 1 (dict_values sixteen))"
    using advancing_eq [OF rank_sixteen, of "''desc''"]
    by (simp add: sixteen_def dict_values_def codes16_def)
  moreover have "take 15 (dict_values sixteen) = dict_values (butlast sixteen)"
    by (simp add: sixteen_def dict_values_def codes16_def)
  moreover have "drop 1 (dict_values sixteen) = dict_values (tl sixteen)"
    by (simp add: sixteen_def dict_values_def codes16_def)
  moreover have first: "timed ''AAA'' 30 \<in> set (dict_values (butlast sixteen))"
    by (simp add: sixteen_def dict_values_def codes16_def)
  moreover have last: "timed ''AAA'' 30 \<notin> set (dict_values (tl sixteen))"
    by (simp add: sixteen_def dict_values_def codes16_def timed_def)
  moreover from first last
  have "set (dict_values (tl sixteen)) \<noteq> set (dict_values (butlast sixteen))"
    by blast
  ultimately show ?thesis by simp
qed

text \<open>
  C3, amended: when the ascending ranking exists (every record has an end time) and has at
  most fifteen records, or its fifteenth and sixteenth record have different sort keys (no
  tie across the cut-off), then both reports exist; the rows that are not eliminated are
  those of position \<open>\<le> 15\<close> in the ascending report and those of position
  \<open>> total - 15\<close> in the descending report; the records that advance are the first
  fifteen of the ascending ranking, which is sorted by duration with the undefined
  durations last, and the last fifteen of the descending ranking; and these are the same
  set of participants.
\<close>

theorem advancing_same_without_tie:
  assumes ranked: "rank_drivers drivers ''asc'' = Inr ranked"
    and no_tie: "length ranked \<le> 15 \<or> rank_key (ranked ! 14) \<noteq> rank_key (ranked ! 15)"
  shows "\<exists>ranked_desc rows_asc rows_desc.
           rank_drivers drivers ''desc'' = Inr ranked_desc
           \<and> get_report_data drivers ''asc'' = Inr rows_asc
           \<and> get_report_data drivers ''desc'' = Inr rows_desc
           \<and> (\<forall>r\<in>set rows_asc. \<not> eliminated r \<longleftrightarrow> position r \<le> 15)
           \<and> (\<forall>r\<in>set rows_desc.
                 \<not> eliminated r \<longleftrightarrow> position r > int (length ranked_desc) - 15)
           \<and> sorted (map pure_key ranked)
           \<and> advancing drivers ''asc'' = Inr (take 15 ranked)
           \<and> advancing drivers ''desc''
               = Inr (drop (length ranked_desc - 15) ranked_desc)
           \<and> set (drop (length ranked_desc - 15) ranked_desc) = set (take 15 ranked)"
proof -
  let ?vs = "dict_values drivers"
  let ?S = "sort_key pure_key (rev ?vs)"
  have complete: "\<forall>d\<in>set ?vs. end_time d \<noteq> None"
    using ranked by (rule set_rank_drivers)
  have asc: "ranked = sort_key pure_key ?vs"
    using ranked rank_drivers_complete [OF complete, of "''asc''"] by simp
  have desc: "rank_drivers drivers ''desc'' = Inr (rev ?S)"
    using rank_drivers_complete [OF complete, of "''desc''"] by simp
  have len: "length (rev ?S) = length ?vs" by simp
  from get_report_data_complete [OF complete, of "''asc''"] ranked
  obtain rows_asc where rows_asc: "get_report_data drivers ''asc'' = Inr rows_asc" by auto
  from get_report_data_complete [OF complete, of "''desc''"] desc
  obtain rows_desc where rows_desc: "get_report_data drivers ''desc'' = Inr rows_desc" by auto
  have "report_rows ''asc'' (int (length ranked)) 1 ranked = Inr rows_asc"
    using rows_asc ranked by (simp add: get_report_data_def)
  then have flags_asc: "\<forall>r\<in>set rows_asc. \<not> eliminated r \<longleftrightarrow> position r \<le> 15"
    by (auto dest: report_rows_flag)
  have "report_rows ''desc'' (int (length (rev ?S))) 1 (rev ?S) = Inr rows_desc"
    using rows_desc desc by (simp add: get_report_data_def)
  then have flags_desc: "\<forall>r\<in>set rows_desc.
      \<not> eliminated r \<longleftrightarrow> position r > int (length (rev ?S)) - 15"
    by (auto dest: report_rows_flag)
  have srt: "sorted (map pure_key ranked)" by (simp add: asc)
  have adv_asc: "advancing drivers ''asc'' = Inr (take 15 ranked)"
    using advancing_eq [OF ranked] by simp
  have adv_desc: "advancing drivers ''desc'' = Inr (drop (length (rev ?S) - 15) (rev ?S))"
    using advancing_eq [OF desc] by simp
  have same: "set (drop (length (rev ?S) - 15) (rev ?S)) = set (take 15 ranked)"
  proof (cases "length ?vs \<le> 15")
    case True
    then show ?thesis by (simp add: asc)
  next
    case False
    then have long: "Suc 14 < length ?vs" by simp
    then have "14 < length ranked" "15 < length ranked"
      by (simp_all add: asc)
    then have "ranked ! 14 \<in> set ranked" "ranked ! 15 \<in> set ranked"
      by (simp_all only: nth_mem)
    then have "rank_key (ranked ! 14) = Inr (pure_key (ranked ! 14))"
      "rank_key (ranked ! 15) = Inr (pure_key (ranked ! 15))"
      using complete by (auto simp: rank_key_eq asc)
    moreover from False no_tie have "rank_key (ranked ! 14) \<noteq> rank_key (ranked ! 15)"
      by (simp add: asc)
    ultimately have "pure_key (sort_key pure_key ?vs ! 14) \<noteq> pure_key (sort_key pure_key ?vs ! Suc 14)"
      by (simp add: asc)
    with long have "set (take (Suc 14) ?S) = set (take (Suc 14) (sort_key pure_key ?vs))"
      by (rule take_sorted_rev_eq)
    moreover have "drop (length (rev ?S) - 15) (rev ?S) = rev (take 15 ?S)"
      using False by (simp add: drop_rev)
    ultimately show ?thesis by (simp add: asc)
  qed
  from desc rows_asc rows_desc flags_asc flags_desc srt adv_asc adv_desc same
  show ?thesis by blast
qed

text \<open>Witness for C3: sixteen records with the lap times 1:30, 1:31, \<open>\<dots>\<close>, 1:45, in this
  order in the mapping. The first fifteen advance in both reports and \<^verbatim>\<open>PPP\<close> does
  not.\<close>

theorem advancing_same_without_tie_witness:
  "rank_drivers grid ''asc'' = Inr (dict_values grid)
   \<and> length (dict_values grid) = 16
   \<and> rank_key (dict_values grid ! 14) \<noteq> rank_key (dict_values grid ! 15)
   \<and> take 15 (dict_values grid) = dict_values (butlast grid)
   \<and> advancing grid ''asc'' = Inr (dict_values (butlast grid))
   \<and> (\<exists>ranked_desc.
         rank_drivers grid ''desc'' = Inr ranked_desc
         \<and> advancing grid ''desc'' = Inr (drop (length ranked_desc - 15) ranked_desc)
         \<and> set (drop (length ranked_desc - 15) ranked_desc) = set (dict_values (butlast grid)))
   \<and> timed ''PPP'' 45 \<notin> set (dict_values (butlast grid))"
proof -
  have gap: "rank_key (dict_values grid ! 14) \<noteq> rank_key (dict_values grid ! 15)"
    by (simp add: grid_cutoff rank_key_eq end_time_timed pure_key_timed)
  then have no_tie: "length (dict_values grid) \<le> 15
               \<or> rank_key (dict_values grid ! 14) \<noteq> rank_key (dict_values grid ! 15)"
    by simp
  have asc: "rank_drivers grid ''asc'' = Inr (dict_values grid)"
    by (rule rank_grid) simp
  have first: "take 15 (dict_values grid) = dict_values (butlast grid)"
    by (simp add: grid_def dict_values_def codes16_def)
  have out: "timed ''PPP'' 45 \<notin> set (dict_values (butlast grid))"
    by (simp add: grid_def dict_values_def codes16_def timed_def)
  from advancing_same_without_tie [OF asc no_tie]
  obtain ranked_desc where
    "rank_drivers grid ''desc'' = Inr ranked_desc"
    "advancing grid ''asc'' = Inr (take 15 (dict_values grid))"
    "advancing grid ''desc'' = Inr (drop (length ranked_desc - 15) ranked_desc)"
    "set (drop (length ranked_desc - 15) ranked_desc) = set (take 15 (dict_values grid))"
    by blast
  with gap asc first out grid_cutoff(1) show ?thesis by auto
qed

subsection \<open>C4: a line of the abbreviations that has not three fields\<close>

lemma integrate_lines_malformed:
  "length (split_on CHR ''_'' (strip line)) \<noteq> 3 \<Longrightarrow>
     integrate_lines (line # rest) drivers = Inl ValueError"
  by (auto split: list.splits)

text \<open>
  C4 says that a line of the abbreviations file that does not split into exactly three
  fields is skipped without an error, the lines before and after it being applied. The
  metadata pass unpacks the fields of every line into three names, which raises
  \<^verbatim>\<open>ValueError\<close>, and only \<^verbatim>\<open>IOError\<close> is caught: with a line of two fields between the
  two well-formed lines of the example the load raises, where the file without that line
  is loaded.
\<close>

theorem malformed_abbreviation_raises:
  "split_on CHR ''_'' (strip (''NHR_Nico Hulkenberg'' @ [CHR 0x0A])) = [''NHR'', ''Nico Hulkenberg'']
   \<and> process_files start_log end_log noisy_abbreviations = Inl ValueError
   \<and> process_files start_log end_log abbreviations = Inr [(''SVF'', vettel), (''DRR'', ricciardo)]"
proof -
  have "process_files start_log end_log noisy_abbreviations = Inl ValueError"
    by (simp add: process_files_def read_start_log read_end_log example_built
        integrate_driver_info_def noisy_abbreviations_def with_newlines_def strip_def
        is_space_def)
  moreover have "split_on CHR ''_'' (strip (''NHR_Nico Hulkenberg'' @ [CHR 0x0A]))
                   = [''NHR'', ''Nico Hulkenberg'']"
    by (simp add: strip_def is_space_def)
  ultimately show ?thesis by (simp add: example_load)
qed

subsection \<open>C5: the lap-time field and the sentinel\<close>

text \<open>
  C5 says that the lap-time field is \<^verbatim>\<open>NO TIME\<close> exactly when the duration is undefined,
  and the formatted duration otherwise, a duration of zero included. The two functions
  test the truth value of the duration, and \<^verbatim>\<open>timedelta(0)\<close> is false: a record that ends
  at the instant it starts has the duration zero, whose text is \<^verbatim>\<open>0:00:00\<close>, and both
  functions give \<^verbatim>\<open>NO TIME\<close> for it. (\<^verbatim>\<open>print_report\<close> tests \<^verbatim>\<open>is not None\<close>.)
  For a record that has an end time the text is the sentinel exactly when the duration is
  undefined or zero (\<open>lap_time_text_sentinel_iff\<close>).
\<close>

theorem zero_duration_shows_no_time:
  "driver_lap_time zero_lap = Inr (Some 0)
   \<and> str_timedelta 0 = ''0:00:00''
   \<and> get_driver_info [(''SVF'', zero_lap)] ''SVF''
       = Inr (Some \<lparr>name = ''Sebastian Vettel'', team' = ''FERRARI'', lap_time = ''NO TIME''\<rparr>)
   \<and> get_report_data [(''SVF'', zero_lap)] ''asc''
       = Inr [\<lparr>name = ''Sebastian Vettel'', team' = ''FERRARI'', lap_time = ''NO TIME'',
                position = 1, eliminated = False\<rparr>]"
proof -
  have sentinel: "lap_time_text zero_lap = Inr ''NO TIME''"
    by (simp add: lap_time_text_def lap_zero_lap truthy_def)
  have str: "str_timedelta 0 = ''0:00:00''"
    by (rule str_timedelta_zero)
  have "rank_key zero_lap = Inr (False, Some 0)"
    by (simp add: rank_key_def lap_zero_lap)
  then have rank: "rank_drivers [(''SVF'', zero_lap)] ''asc'' = Inr [zero_lap]"
    by (simp add: rank_drivers_def list_sort_def dict_values_def)
  have fields: "driver_name zero_lap = ''Sebastian Vettel''" "team zero_lap = ''FERRARI''"
    by (simp_all add: zero_lap_def)
  show ?thesis
    by (simp add: lap_zero_lap str get_driver_info_def get_report_data_def rank sentinel fields)
qed

subsection \<open>C6: an order value that is not recognised\<close>

text \<open>
  C6 says that an order value other than \<^verbatim>\<open>asc\<close> and \<^verbatim>\<open>desc\<close>, such as \<^verbatim>\<open>foo\<close>, gives
  the report of \<^verbatim>\<open>asc\<close>: the same sequence and the same eliminated flags. The route
  passes the value on as it is; \<^verbatim>\<open>rank_drivers\<close> reverses for \<^verbatim>\<open>desc\<close> only, so the
  sequence is the ascending one, but \<^verbatim>\<open>get_report_data\<close> uses the rule of the ascending
  view for \<^verbatim>\<open>asc\<close> only, so the flags are those of the descending view. With sixteen
  records of lap times 1:30 to 1:45, \<^verbatim>\<open>asc\<close> eliminates the last, \<^verbatim>\<open>PPP\<close>, and \<^verbatim>\<open>foo\<close>
  eliminates the first and fastest, \<^verbatim>\<open>AAA\<close>.
\<close>

theorem unrecognised_order_uses_descending_flags:
  "map_sum id (map name) (report grid (Some ''asc'')) = Inr codes16
   \<and> map_sum id (map name) (report grid (Some ''foo'')) = Inr codes16
   \<and> map_sum id (map eliminated) (report grid (Some ''asc'')) = Inr (replicate 15 False @ [True])
   \<and> map_sum id (map eliminated) (report grid (Some ''foo'')) = Inr (True # replicate 15 False)
   \<and> report grid None = report grid (Some ''asc'')"
proof -
  have names: "map driver_name (dict_values grid) = codes16"
    by (simp add: grid_def dict_values_def codes16_def timed_def)
  have len: "length (dict_values grid) = 16"
    by (rule grid_cutoff)
  have upt: "[0..<16] = [0, 1, 2, 3, 4, 5, 6, 7, 8, 9, 10, 11, 12, 13, 14, 15::nat]"
    by (simp add: upt_rec)
  have "\<forall>d\<in>set (dict_values grid). end_time d \<noteq> None"
    using rank_grid [of "''asc''"] by (intro set_rank_drivers(3)) simp
  then have rows: "\<exists>rows. report_rows order 16 1 (dict_values grid) = Inr rows" for order
    by (rule report_rows_complete)
  obtain asc where asc: "report_rows ''asc'' 16 1 (dict_values grid) = Inr asc"
    using rows by blast
  obtain foo where foo: "report_rows ''foo'' 16 1 (dict_values grid) = Inr foo"
    using rows by blast
  have "report grid (Some ''asc'') = Inr asc"
    by (simp add: report_def get_report_data_def rank_grid len asc)
  moreover have "report grid (Some ''foo'') = Inr foo"
    by (simp add: report_def get_report_data_def rank_grid len foo)
  moreover have "map name asc = codes16" "map name foo = codes16"
    using report_rows_name [OF asc] report_rows_name [OF foo] names by simp_all
  moreover have "map eliminated asc = replicate 15 False @ [True]"
    using report_rows_eliminated [OF asc] by (simp add: len upt eval_nat_numeral)
  moreover have "map eliminated foo = True # replicate 15 False"
    using report_rows_eliminated [OF foo] by (simp add: len upt eval_nat_numeral)
  moreover have "report grid None = report grid (Some ''asc'')"
    by (simp add: report_def)
  ultimately show ?thesis by simp
qed

subsection \<open>C7: a file that is missing or cannot be read\<close>




subsection \<open>C8: looking up one driver\<close>

text \<open>\<^verbatim>\<open>get_driver_info\<close> returns \<^verbatim>\<open>None\<close> for a code that is not in the mapping, and
  the name, the team and the lap-time text of a record that has an end time.\<close>

lemma get_driver_info_absent:
  "map_of drivers init = None \<Longrightarrow> get_driver_info drivers init = Inr None"
  by (simp add: get_driver_info_def)

lemma get_driver_info_present:
  assumes "map_of drivers init = Some d" and "end_time d \<noteq> None"
  shows "get_driver_info drivers init
           = Inr (Some \<lparr>name = driver_name d, team' = team d,
                         lap_time = (if truthy (duration d) then py_str (duration d)
                                     else ''NO TIME'')\<rparr>)"
  using assms by (simp add: get_driver_info_def lap_time_text_complete)

text \<open>
  C8 says that \<^verbatim>\<open>get_driver_info\<close> returns \<^verbatim>\<open>None\<close> for every code that is not in the
  mapping, never raising, and the name, team and lap-time text for every code that is.
  For the code of a record that has a start time only (the record that \<^verbatim>\<open>process_files\<close>
  builds when the end log has no line for the code) the lookup finds the record and raises
  \<^verbatim>\<open>AttributeError\<close> on its lap time.
\<close>

theorem lookup_of_start_only_record_raises:
  "process_files (Readable [''SVF2018-05-24_12:02:58.917'']) Unreadable Unreadable
     = Inr [(''SVF'', start_only)]
   \<and> map_of [(''SVF'', start_only)] ''SVF'' = Some start_only
   \<and> get_driver_info [(''SVF'', start_only)] ''SVF'' = Inl AttributeError
   \<and> get_driver_info [(''SVF'', start_only)] ''DRR'' = Inr None"
proof -
  have "process_files (Readable [''SVF2018-05-24_12:02:58.917'']) Unreadable Unreadable
          = Inr [(''SVF'', start_only)]"
    by (simp add: process_files_def read_log_file_def integrate_driver_info_def start_only_def
        parse_defs)
  moreover have "lap_time_text start_only = Inl AttributeError"
    by (rule lap_time_text_start_only) (simp add: start_only_def)
  ultimately show ?thesis by (simp add: get_driver_info_def)
qed

subsection \<open>C9: a log line that does not match the pattern\<close>

text \<open>
  C9: a line of the start or end log that, stripped, does not match the pattern of three
  capital letters followed by a timestamp \<^verbatim>\<open>YYYY-MM-DD_HH:MM:SS.mmm\<close> is skipped by
  \<^verbatim>\<open>read_log_file\<close>: the result, be it a mapping or an error raised by another line, is
  the one for the file without that line, and so is the result of the whole load, whether
  the line stands in the start log or in the end log. No entry and no record come from it.
  (The lines that do not match are those that do not begin with a code and a timestamp as
  the specification words them, \<open>re_match_None_iff\<close>.)
\<close>

theorem unmatched_line_is_skipped:
  assumes "re_match (strip line) = None"
  shows "read_log_file (Readable (before @ line # after))
           = read_log_file (Readable (before @ after))
         \<and> process_files (Readable (before @ line # after)) e a
           = process_files (Readable (before @ after)) e a
         \<and> process_files s (Readable (before @ line # after)) a
           = process_files s (Readable (before @ after)) a"
proof -
  have skip: "read_lines (line # after) data = read_lines after data" for data
    using assms by simp
  have "read_lines (before @ line # after) []
          = (case read_lines before [] of Inl e \<Rightarrow> Inl e
             | Inr data \<Rightarrow> read_lines (line # after) data)"
    by (rule read_lines_append)
  also have "\<dots> = (case read_lines before [] of Inl e \<Rightarrow> Inl e
                     | Inr data \<Rightarrow> read_lines after data)"
    by (simp only: skip)
  also have "\<dots> = read_lines (before @ after) []"
    by (rule read_lines_append [symmetric])
  finally have "read_lines (before @ line # after) [] = read_lines (before @ after) []" .
  then have same: "read_log_file (Readable (before @ line # after))
                     = read_log_file (Readable (before @ after))"
    by (simp add: read_log_file_def)
  show ?thesis unfolding process_files_def same by simp
qed

text \<open>Witness for C9: the line \<^verbatim>\<open>XYZ_not_a_timestamp\<close> in a start log, after a line of
  \<^verbatim>\<open>SVF\<close> and before lines of \<^verbatim>\<open>DRR\<close> and \<^verbatim>\<open>SVF\<close>; the load has no record for
  \<^verbatim>\<open>XYZ\<close>.\<close>

theorem unmatched_line_is_skipped_witness:
  "re_match (strip (''XYZ_not_a_timestamp'' @ [CHR 0x0A])) = None
   \<and> noisy_log = with_newlines [''SVF2018-05-24_12:00:00.000'']
        @ (''XYZ_not_a_timestamp'' @ [CHR 0x0A])
        # with_newlines [''DRR2018-05-24_12:14:12.054'', ''SVF2018-05-24_12:02:58.917'']
   \<and> read_log_file (Readable noisy_log)
       = read_log_file (Readable (with_newlines [''SVF2018-05-24_12:00:00.000'']
           @ with_newlines [''DRR2018-05-24_12:14:12.054'', ''SVF2018-05-24_12:02:58.917'']))
   \<and> read_log_file (Readable noisy_log)
       = Inr [(''SVF'', start_time vettel), (''DRR'', start_time ricciardo)]
   \<and> process_files (Readable noisy_log) end_log abbreviations
       = Inr [(''SVF'', vettel), (''DRR'', ricciardo)]"
proof -
  have unmatched: "re_match (strip (''XYZ_not_a_timestamp'' @ [CHR 0x0A])) = None"
    by (simp add: parse_defs)
  have split: "noisy_log = with_newlines [''SVF2018-05-24_12:00:00.000'']
        @ (''XYZ_not_a_timestamp'' @ [CHR 0x0A])
        # with_newlines [''DRR2018-05-24_12:14:12.054'', ''SVF2018-05-24_12:02:58.917'']"
    by (simp add: noisy_log_def with_newlines_def)
  have "process_files (Readable noisy_log) end_log abbreviations
          = process_files start_log end_log abbreviations"
    by (simp add: process_files_def read_noisy_log read_start_log)
  with unmatched split read_noisy_log example_load
    unmatched_line_is_skipped [OF unmatched,
      of "with_newlines [''SVF2018-05-24_12:00:00.000'']"
         "with_newlines [''DRR2018-05-24_12:14:12.054'', ''SVF2018-05-24_12:02:58.917'']"]
  show ?thesis by simp
qed

subsection \<open>C10: a code on more than one line\<close>

text \<open>
  C10: the mapping that \<^verbatim>\<open>read_log_file\<close> produces has one entry for each code, and the
  entry of a code holds the timestamp of the last well-formed line of the file that carries
  the code (a code that no well-formed line carries has no entry); consequently the record
  mapping of \<^verbatim>\<open>process_files\<close> has one record for each code, stored under that code.
\<close>

theorem last_well_formed_line_wins:
  "(read_log_file (Readable ls) = Inr data \<longrightarrow>
      distinct (map fst data)
      \<and> (\<forall>c. case last_line_of c ls of
                None \<Rightarrow> map_of data c = None
              | Some l \<Rightarrow> \<exists>ts t. re_match (strip l) = Some (c, ts) \<and> strptime ts = Inr t
                                  \<and> map_of data c = Some t))
   \<and> (process_files s e a = Inr drivers \<longrightarrow>
        distinct (map fst drivers) \<and> distinct (map driver_init (dict_values drivers)))"
proof (intro conjI impI allI)
  assume r: "read_log_file (Readable ls) = Inr data"
  then show "distinct (map fst data)" by (rule read_log_file_distinct)
  fix c
  from r have "read_lines ls [] = Inr data" by (simp add: read_log_file_def)
  from read_lines_lookup [OF this, of c]
  show "case last_line_of c ls of
          None \<Rightarrow> map_of data c = None
        | Some l \<Rightarrow> \<exists>ts t. re_match (strip l) = Some (c, ts) \<and> strptime ts = Inr t
                            \<and> map_of data c = Some t"
    by (simp split: option.splits)
next
  assume p: "process_files s e a = Inr drivers"
  then show d: "distinct (map fst drivers)" by (rule process_files_keys)
  from p have "keyed_by_init drivers" by (rule process_files_keys)
  then have "map driver_init (dict_values drivers) = map fst drivers"
    by (auto simp: keyed_by_init_def dict_values_def)
  with d show "distinct (map driver_init (dict_values drivers))" by simp
qed

text \<open>Witness for C10: in the start log \<^verbatim>\<open>SVF\<close> has the lines of 12:00:00.000 and, last,
  of 12:02:58.917; the entry is the second timestamp and the load has one \<^verbatim>\<open>SVF\<close>
  record.\<close>

theorem last_well_formed_line_wins_witness:
  "read_log_file (Readable noisy_log)
     = Inr [(''SVF'', start_time vettel), (''DRR'', start_time ricciardo)]
   \<and> last_line_of ''SVF'' noisy_log = Some (''SVF2018-05-24_12:02:58.917'' @ [CHR 0x0A])
   \<and> distinct (map fst [(''SVF'', start_time vettel), (''DRR'', start_time ricciardo)])
   \<and> (\<exists>ts t. re_match (strip (''SVF2018-05-24_12:02:58.917'' @ [CHR 0x0A])) = Some (''SVF'', ts)
          \<and> strptime ts = Inr t
          \<and> map_of [(''SVF'', start_time vettel), (''DRR'', start_time ricciardo)] ''SVF'' = Some t)
   \<and> process_files (Readable noisy_log) end_log abbreviations
       = Inr [(''SVF'', vettel), (''DRR'', ricciardo)]
   \<and> distinct (map driver_init (dict_values [(''SVF'', vettel), (''DRR'', ricciardo)]))"
proof -
  have last: "last_line_of ''SVF'' noisy_log = Some (''SVF2018-05-24_12:02:58.917'' @ [CHR 0x0A])"
    by (simp add: last_line_of_def line_code_def noisy_log_def parse_defs)
  have load: "process_files (Readable noisy_log) end_log abbreviations
                = Inr [(''SVF'', vettel), (''DRR'', ricciardo)]"
    using example_load by (simp add: process_files_def read_noisy_log read_start_log)
  from last_well_formed_line_wins
    [of noisy_log "[(''SVF'', start_time vettel), (''DRR'', start_time ricciardo)]"
        "Readable noisy_log" end_log abbreviations "[(''SVF'', vettel), (''DRR'', ricciardo)]"]
    read_noisy_log load
  have "distinct (map fst [(''SVF'', start_time vettel), (''DRR'', start_time ricciardo)])"
    and "\<forall>c. case last_line_of c noisy_log of
                None \<Rightarrow> map_of [(''SVF'', start_time vettel), (''DRR'', start_time ricciardo)] c = None
              | Some l \<Rightarrow> \<exists>ts t. re_match (strip l) = Some (c, ts) \<and> strptime ts = Inr t
                  \<and> map_of [(''SVF'', start_time vettel), (''DRR'', start_time ricciardo)] c = Some t"
    and "distinct (map driver_init (dict_values [(''SVF'', vettel), (''DRR'', ricciardo)]))"
    by blast+
  from this(1) this(2) [rule_format, of "''SVF''"] this(3) last read_noisy_log load
  show ?thesis by simp
qed

end
